theory Spec2Isabelle
  imports Main "HOL-Library.Word" "HOL-Library.AList" "HOL-Library.Multiset"
begin

unbundle bit_operations_syntax

section \<open>Query runtime symbols (mol-script/runtime/query/table.ts)\<close>

subsection \<open>JavaScript values and truthiness\<close>

text \<open>
  The values an argument thunk of the runtime can evaluate to. Numbers are the
  integer-valued ones (flags, counts, indices); \<open>JSNaN\<close> stands for the one
  falsy number that is not an integer.
\<close>

datatype JSValue =
    JSNum int
  | JSNaN
  | JSStr string
  | JSBool bool
  | JSUndefined
  | JSNull

text \<open>JavaScript's ToBoolean.\<close>

fun truthy :: "JSValue \<Rightarrow> bool" where
  "truthy (JSNum n) = (n \<noteq> 0)"
| "truthy JSNaN = False"
| "truthy (JSStr s) = (s \<noteq> [])"
| "truthy (JSBool b) = b"
| "truthy JSUndefined = False"
| "truthy JSNull = False"

text \<open>JavaScript's ToInt32 on an integer-valued number: the operands of \<open>&\<close> and \<open>|\<close>.\<close>

definition toInt32 :: "int \<Rightarrow> 32 word" where
  "toInt32 n = word_of_int n"

subsection \<open>core.flags.hasAny / core.flags.hasAll\<close>

text \<open>
  \<^verbatim>\<open>
  C(MolScript.core.flags.hasAny, (ctx, v) => {
      const test = v[1](ctx);
      const tested = v[0](ctx);
      if (!test) return !!tested;
      return (tested & test) !== 0;
  }),
  C(MolScript.core.flags.hasAll, (ctx, v) => {
      const test = v[1](ctx);
      const tested = v[0](ctx);
      if (!test) return !tested;
      return (tested & test) === test;
  }),
  \<close>
  Both arguments are bitflags, that is numbers; the model takes them as integers.
  \<open>tested & test\<close> is a signed 32-bit integer, compared with the number \<open>test\<close>.
\<close>

definition hasAny :: "int \<Rightarrow> int \<Rightarrow> bool" where
  "hasAny tested test =
     (if \<not> truthy (JSNum test) then truthy (JSNum tested)
      else sint (toInt32 tested AND toInt32 test) \<noteq> 0)"

definition hasAll :: "int \<Rightarrow> int \<Rightarrow> bool" where
  "hasAll tested test =
     (if \<not> truthy (JSNum test) then \<not> truthy (JSNum tested)
      else sint (toInt32 tested AND toInt32 test) = test)"

subsection \<open>Runtime arguments\<close>

text \<open>
  A symbol's implementation receives \<open>(ctx, xs)\<close>, where \<open>xs\<close> is either a positional
  array of argument thunks or an object of named thunks, listed here in the order of
  \<open>Object.keys\<close>. A thunk takes the context and returns a value.
\<close>

datatype 'ctx QueryRuntimeArguments =
    Positional "('ctx \<Rightarrow> JSValue) list"
  | Named "(string \<times> ('ctx \<Rightarrow> JSValue)) list"

text \<open>\<open>xs[key]\<close> for a property name that is not an array index: \<open>undefined\<close> is \<open>None\<close>.\<close>

fun arg_named :: "'ctx QueryRuntimeArguments \<Rightarrow> string \<Rightarrow> ('ctx \<Rightarrow> JSValue) option" where
  "arg_named (Positional ts) k = None"
| "arg_named (Named kts) k = map_of kts k"

text \<open>\<open>xs[0]\<close>.\<close>

fun arg_first :: "'ctx QueryRuntimeArguments \<Rightarrow> ('ctx \<Rightarrow> JSValue) option" where
  "arg_first (Positional []) = None"
| "arg_first (Positional (t # ts)) = Some t"
| "arg_first (Named kts) = map_of kts ''0''"

datatype error =
    TypeError
  | RangeError
  | UndefinedUnit
  | QueryNotCompatible

subsection \<open>structureQuery.type.linkFlags\<close>

text \<open>
  The constants of \<open>LinkType.Flag\<close> (mol-model/structure/model/types) are bit flags;
  their values are a parameter of the model.
\<close>

record LinkTypeFlag =
  Flag_None :: "32 word"
  Flag_Covalent :: "32 word"
  Flag_MetallicCoordination :: "32 word"
  Flag_Ionic :: "32 word"
  Flag_Hydrogen :: "32 word"
  Flag_Sulfide :: "32 word"
  Flag_Aromatic :: "32 word"
  Flag_Computed :: "32 word"

text \<open>\<open>String.prototype.toLowerCase\<close> on ASCII strings.\<close>

definition lower_char :: "char \<Rightarrow> char" where
  "lower_char c =
     (if 65 \<le> (of_char c :: nat) \<and> (of_char c :: nat) \<le> 90
      then char_of ((of_char c :: nat) + 32) else c)"

definition toLowerCase :: "string \<Rightarrow> string" where
  "toLowerCase s = map lower_char s"

text \<open>
  \<^verbatim>\<open>
  function linkFlag(current: LinkType, f: string): LinkType {
      switch (f.toLowerCase()) {
          case 'covalent': return current | LinkType.Flag.Covalent;
          case 'metallic': return current | LinkType.Flag.MetallicCoordination;
          case 'ion': return current | LinkType.Flag.Ionic;
          case 'hydrogen': return current | LinkType.Flag.Hydrogen;
          case 'sulfide': return current | LinkType.Flag.Sulfide;
          case 'aromatic': return current | LinkType.Flag.Aromatic;
          case 'computed': return current | LinkType.Flag.Computed;
          default: return current;
      }
  }
  \<close>
  \<open>f.toLowerCase()\<close> raises a TypeError when \<open>f\<close> is not a string.
\<close>

fun linkFlag :: "LinkTypeFlag \<Rightarrow> 32 word \<Rightarrow> JSValue \<Rightarrow> error + 32 word" where
  "linkFlag F current (JSStr f) =
     (let k = toLowerCase f in
      if k = ''covalent'' then Inr (current OR Flag_Covalent F)
      else if k = ''metallic'' then Inr (current OR Flag_MetallicCoordination F)
      else if k = ''ion'' then Inr (current OR Flag_Ionic F)
      else if k = ''hydrogen'' then Inr (current OR Flag_Hydrogen F)
      else if k = ''sulfide'' then Inr (current OR Flag_Sulfide F)
      else if k = ''aromatic'' then Inr (current OR Flag_Aromatic F)
      else if k = ''computed'' then Inr (current OR Flag_Computed F)
      else Inr current)"
| "linkFlag F current v = Inl TypeError"

text \<open>
  \<^verbatim>\<open>
  C(MolScript.structureQuery.type.linkFlags, (ctx, xs) => {
      let ret: LinkType = LinkType.Flag.None;
      if (typeof xs.length === 'number') {
          for (let i = 0, _i = xs.length; i < _i; i++) ret = linkFlag(ret, xs[i](ctx));
      } else {
          for (const k of Object.keys(xs)) ret = linkFlag(ret, xs[k](ctx));
      }
      return ret;
  }),
  \<close>
\<close>

fun linkFlags_loop :: "LinkTypeFlag \<Rightarrow> 'ctx \<Rightarrow> 32 word \<Rightarrow> ('ctx \<Rightarrow> JSValue) list \<Rightarrow> error + 32 word" where
  "linkFlags_loop F ctx ret [] = Inr ret"
| "linkFlags_loop F ctx ret (t # ts) =
     (case linkFlag F ret (t ctx) of
        Inl e \<Rightarrow> Inl e
      | Inr ret' \<Rightarrow> linkFlags_loop F ctx ret' ts)"

fun linkFlags :: "LinkTypeFlag \<Rightarrow> 'ctx \<Rightarrow> 'ctx QueryRuntimeArguments \<Rightarrow> error + 32 word" where
  "linkFlags F ctx (Positional ts) = linkFlags_loop F ctx (Flag_None F) ts"
| "linkFlags F ctx (Named kts) = linkFlags_loop F ctx (Flag_None F) (map snd kts)"

text \<open>
  The bit of a keyword, as the specification words it: a recognised keyword (in any
  case) has the flag of its name, a keyword that is not recognised has no bit. This
  table follows those words and not the \<open>switch\<close> of \<open>linkFlag\<close>.
\<close>

definition keyword_bit :: "LinkTypeFlag \<Rightarrow> string \<Rightarrow> 32 word" where
  "keyword_bit F k =
     (case map_of
             [(''covalent'', Flag_Covalent F),
              (''metallic'', Flag_MetallicCoordination F),
              (''ion'', Flag_Ionic F),
              (''hydrogen'', Flag_Hydrogen F),
              (''sulfide'', Flag_Sulfide F),
              (''aromatic'', Flag_Aromatic F),
              (''computed'', Flag_Computed F)]
             (toLowerCase k) of
        Some b \<Rightarrow> b
      | None \<Rightarrow> 0)"

subsection \<open>structureQuery.modifier.includeConnected\<close>

text \<open>
  \<^verbatim>\<open>
  D(MolScript.structureQuery.modifier.includeConnected, function ...(ctx, xs) {
      return Queries.modifiers.includeConnected({
          query: xs[0] as any,
          linkTest: xs['link-test'],
          wholeResidues: !!(xs['as-whole-residues'] && xs['as-whole-residues'](ctx)),
          layerCount: (xs['layer-count'] && xs['layer-count'](ctx)) || 1
      })(ctx) }),
  \<close>
  The model is the parameter object handed to \<open>Queries.modifiers.includeConnected\<close>.
  An argument, when present, is a function and hence truthy: \<open>x && x(ctx)\<close> is
  \<open>undefined\<close> when it is absent and \<open>x(ctx)\<close> otherwise.
\<close>

record 'ctx IncludeConnectedParams =
  query_thunk :: "('ctx \<Rightarrow> JSValue) option"
  linkTest :: "('ctx \<Rightarrow> JSValue) option"
  wholeResidues :: bool
  layerCount :: JSValue

definition and_call :: "('ctx \<Rightarrow> JSValue) option \<Rightarrow> 'ctx \<Rightarrow> JSValue" where
  "and_call x ctx = (case x of None \<Rightarrow> JSUndefined | Some t \<Rightarrow> t ctx)"

definition js_or :: "JSValue \<Rightarrow> JSValue \<Rightarrow> JSValue" where
  "js_or a b = (if truthy a then a else b)"

definition includeConnected_params ::
  "'ctx \<Rightarrow> 'ctx QueryRuntimeArguments \<Rightarrow> 'ctx IncludeConnectedParams" where
  "includeConnected_params ctx xs =
     \<lparr> query_thunk = arg_first xs,
       linkTest = arg_named xs ''link-test'',
       wholeResidues = truthy (and_call (arg_named xs ''as-whole-residues'') ctx),
       layerCount = js_or (and_call (arg_named xs ''layer-count'') ctx) (JSNum 1) \<rparr>"

section \<open>Structure elements (mol-model/structure/structure/element.ts)\<close>

subsection \<open>Ordered sets of unit indices\<close>

text \<open>
  Modelled from the spec: \<open>OrderedSet\<close>, \<open>Interval\<close> and \<open>SortedArray\<close> of mol-data/int
  are not part of the sources at hand. An ordered set is either an interval, kept as its
  bounds (start inclusive, end exclusive), or an explicit ascending array of unique values.
  A \<open>UnitIndex\<close> is a position in \<open>unit.elements\<close>, a natural number.
\<close>

datatype OrderedSet =
    Interval nat nat
  | SortedArray "nat list"

fun OrderedSet_values :: "OrderedSet \<Rightarrow> nat list" where
  "OrderedSet_values (Interval lo hi) = [lo..<hi]"
| "OrderedSet_values (SortedArray xs) = xs"

fun OrderedSet_size :: "OrderedSet \<Rightarrow> nat" where
  "OrderedSet_size (Interval lo hi) = hi - lo"
| "OrderedSet_size (SortedArray xs) = length xs"

fun OrderedSet_isInterval :: "OrderedSet \<Rightarrow> bool" where
  "OrderedSet_isInterval (Interval lo hi) = True"
| "OrderedSet_isInterval (SortedArray xs) = False"

text \<open>\<open>Interval.ofRange(min, max)\<close> is the closed range; \<open>Interval.min\<close> and \<open>Interval.max\<close> read it back.\<close>

definition Interval_ofRange :: "nat \<Rightarrow> nat \<Rightarrow> OrderedSet" where
  "Interval_ofRange lo hi = Interval lo (Suc hi)"

fun Interval_min :: "OrderedSet \<Rightarrow> nat" where
  "Interval_min (Interval lo hi) = lo"
| "Interval_min (SortedArray xs) = (case xs of [] \<Rightarrow> 0 | x # _ \<Rightarrow> x)"

fun Interval_max :: "OrderedSet \<Rightarrow> nat" where
  "Interval_max (Interval lo hi) = hi - 1"
| "Interval_max (SortedArray xs) = (case xs of [] \<Rightarrow> 0 | _ \<Rightarrow> last xs)"

text \<open>The union of two ascending arrays, by merging.\<close>

fun SortedArray_union :: "nat list \<Rightarrow> nat list \<Rightarrow> nat list" where
  "SortedArray_union [] ys = ys"
| "SortedArray_union (x # xs) [] = x # xs"
| "SortedArray_union (x # xs) (y # ys) =
     (if x < y then x # SortedArray_union xs (y # ys)
      else if y < x then y # SortedArray_union (x # xs) ys
      else x # SortedArray_union xs ys)"

text \<open>
  Two intervals that overlap or touch give an interval (the O(1) path: \<open>Interval(0,5)\<close>
  and \<open>Interval(3,8)\<close> give \<open>Interval(0,8)\<close>); everything else degrades to an array.
\<close>

fun OrderedSet_union :: "OrderedSet \<Rightarrow> OrderedSet \<Rightarrow> OrderedSet" where
  "OrderedSet_union (Interval a1 a2) (Interval b1 b2) =
     (if a2 \<le> a1 then Interval b1 b2
      else if b2 \<le> b1 then Interval a1 a2
      else if a1 \<le> b2 \<and> b1 \<le> a2 then Interval (min a1 b1) (max a2 b2)
      else SortedArray (SortedArray_union [a1..<a2] [b1..<b2]))"
| "OrderedSet_union a b = SortedArray (SortedArray_union (OrderedSet_values a) (OrderedSet_values b))"

definition OrderedSet_subtract :: "OrderedSet \<Rightarrow> OrderedSet \<Rightarrow> OrderedSet" where
  "OrderedSet_subtract a b =
     SortedArray (filter (\<lambda>x. x \<notin> set (OrderedSet_values b)) (OrderedSet_values a))"

definition OrderedSet_areIntersecting :: "OrderedSet \<Rightarrow> OrderedSet \<Rightarrow> bool" where
  "OrderedSet_areIntersecting a b =
     list_ex (\<lambda>x. x \<in> set (OrderedSet_values b)) (OrderedSet_values a)"

subsection \<open>Units, structures, loci\<close>

text \<open>
  Modelled from the spec: \<open>Unit\<close> and \<open>Structure\<close> are declared outside the sources at
  hand. A unit has an \<open>id\<close> (unique in its structure), an \<open>invariantId\<close> shared by
  equivalent units, and its ascending \<open>elements\<close>. A structure owns its units, the
  \<open>unitMap\<close> from unit id to unit, a \<open>hashCode\<close> and possibly a \<open>parent\<close>.
\<close>

record Unit =
  unit_id :: int
  invariantId :: int
  unit_elements :: "nat list"

datatype Structure =
  Structure (structure_units: "Unit list") (hashCode: int) (structure_parent: "Structure option")

definition unitMap_get :: "Structure \<Rightarrow> int \<Rightarrow> Unit option" where
  "unitMap_get s i = find (\<lambda>u. unit_id u = i) (structure_units s)"

definition unitMap_has :: "Structure \<Rightarrow> int \<Rightarrow> bool" where
  "unitMap_has s i = (unitMap_get s i \<noteq> None)"

text \<open>\<open>(parent.parent || parent)\<close>\<close>

definition root :: "Structure \<Rightarrow> Structure" where
  "root s = (case structure_parent s of Some p \<Rightarrow> p | None \<Rightarrow> s)"

text \<open>
  \<^verbatim>\<open>
  export interface Loci {
      readonly kind: 'element-loci',
      readonly structure: Structure,
      readonly elements: ReadonlyArray<{ unit: Unit, indices: OrderedSet<UnitIndex> }>
  }
  \<close>
\<close>

record LociElement =
  el_unit :: Unit
  el_indices :: OrderedSet

record Loci =
  loci_structure :: Structure
  loci_elements :: "LociElement list"

definition Loci_none :: "Structure \<Rightarrow> Loci" where
  "Loci_none s = \<lparr> loci_structure = s, loci_elements = [] \<rparr>"

text \<open>
  A \<open>Map<number, OrderedSet>\<close> keeps its keys in insertion order: an association list,
  with \<open>AList.update\<close> for \<open>set\<close> (in place for a key that is there, at the end for a
  new one), \<open>map_of\<close> for \<open>has\<close>/\<open>get\<close> and \<open>AList.delete\<close> for \<open>delete\<close>.
  \<^verbatim>\<open>for (const e of xs.elements) map.set(e.unit.id, e.indices);\<close>
\<close>

definition indices_map :: "LociElement list \<Rightarrow> (int \<times> OrderedSet) list" where
  "indices_map es = foldl (\<lambda>m e. AList.update (unit_id (el_unit e)) (el_indices e) m) [] es"

subsection \<open>Loci.union\<close>

text \<open>
  \<^verbatim>\<open>
  export function union(xs: Loci, ys: Loci): Loci {
      if (xs.elements.length > ys.elements.length) return union(ys, xs);
      if (xs.elements.length === 0) return ys;
      const map = new Map<number, OrderedSet<UnitIndex>>();
      for (const e of xs.elements) map.set(e.unit.id, e.indices);
      const elements: Loci['elements'][0][] = [];
      for (const e of ys.elements) {
          if (map.has(e.unit.id)) {
              elements[elements.length] = { unit: e.unit, indices: OrderedSet.union(map.get(e.unit.id)!, e.indices) };
              map.delete(e.unit.id)
          } else {
              elements[elements.length] = e;
          }
      }
      map.forEach((indices, id) => {
          elements[elements.length] = { unit: xs.structure.unitMap.get(id)!, indices };
      });
      return Loci(xs.structure, elements);
  }
  \<close>
  The loop over \<open>ys.elements\<close> returns the elements it appended and the map that is left.
  The last loop looks every remaining id up in \<open>xs.structure.unitMap\<close>; for an id that
  is not there the element's unit is \<open>undefined\<close>, which is no \<open>Loci\<close>: the
  model gives \<open>Inl UndefinedUnit\<close>.
\<close>

fun union_ys :: "LociElement list \<Rightarrow> (int \<times> OrderedSet) list
                  \<Rightarrow> LociElement list \<times> (int \<times> OrderedSet) list" where
  "union_ys [] m = ([], m)"
| "union_ys (e # es) m =
     (case map_of m (unit_id (el_unit e)) of
        Some ind \<Rightarrow>
          (let (r, m') = union_ys es (AList.delete (unit_id (el_unit e)) m)
           in (\<lparr> el_unit = el_unit e, el_indices = OrderedSet_union ind (el_indices e) \<rparr> # r, m'))
      | None \<Rightarrow> (let (r, m') = union_ys es m in (e # r, m')))"

fun union_rest :: "Structure \<Rightarrow> (int \<times> OrderedSet) list \<Rightarrow> error + LociElement list" where
  "union_rest s [] = Inr []"
| "union_rest s ((i, ind) # m) =
     (case unitMap_get s i of
        None \<Rightarrow> Inl UndefinedUnit
      | Some u \<Rightarrow>
          (case union_rest s m of
             Inl e \<Rightarrow> Inl e
           | Inr r \<Rightarrow> Inr (\<lparr> el_unit = u, el_indices = ind \<rparr> # r)))"

definition union_body :: "Loci \<Rightarrow> Loci \<Rightarrow> error + Loci" where
  "union_body xs ys =
     (if length (loci_elements xs) = 0 then Inr ys
      else
        (let (elements, m) = union_ys (loci_elements ys) (indices_map (loci_elements xs))
         in case union_rest (loci_structure xs) m of
              Inl e \<Rightarrow> Inl e
            | Inr r \<Rightarrow> Inr \<lparr> loci_structure = loci_structure xs, loci_elements = elements @ r \<rparr>))"

text \<open>The first line swaps the operands at most once.\<close>

definition Loci_union :: "Loci \<Rightarrow> Loci \<Rightarrow> error + Loci" where
  "Loci_union xs ys =
     (if length (loci_elements xs) > length (loci_elements ys) then union_body ys xs
      else union_body xs ys)"

subsection \<open>Loci.subtract\<close>

text \<open>
  \<^verbatim>\<open>
  export function subtract(xs: Loci, ys: Loci): Loci {
      const map = new Map<number, OrderedSet<UnitIndex>>();
      for (const e of ys.elements) map.set(e.unit.id, e.indices);
      const elements: Loci['elements'][0][] = [];
      for (const e of xs.elements) {
          if (map.has(e.unit.id)) {
              const indices = OrderedSet.subtract(e.indices, map.get(e.unit.id)!);
              if (OrderedSet.size(indices) === 0) continue;
              elements[elements.length] = { unit: e.unit, indices };
          } else {
              elements[elements.length] = e;
          }
      }
      return Loci(xs.structure, elements);
  }
  \<close>
\<close>

fun subtract_xs :: "(int \<times> OrderedSet) list \<Rightarrow> LociElement list \<Rightarrow> LociElement list" where
  "subtract_xs m [] = []"
| "subtract_xs m (e # es) =
     (case map_of m (unit_id (el_unit e)) of
        Some ind \<Rightarrow>
          (let indices = OrderedSet_subtract (el_indices e) ind
           in if OrderedSet_size indices = 0 then subtract_xs m es
              else \<lparr> el_unit = el_unit e, el_indices = indices \<rparr> # subtract_xs m es)
      | None \<Rightarrow> e # subtract_xs m es)"

definition Loci_subtract :: "Loci \<Rightarrow> Loci \<Rightarrow> Loci" where
  "Loci_subtract xs ys =
     \<lparr> loci_structure = loci_structure xs,
       loci_elements = subtract_xs (indices_map (loci_elements ys)) (loci_elements xs) \<rparr>"

subsection \<open>Loci.areIntersecting\<close>

text \<open>
  \<^verbatim>\<open>
  export function areIntersecting(xs: Loci, ys: Loci): boolean {
      if (xs.elements.length > ys.elements.length) return areIntersecting(ys, xs);
      if (xs.elements.length === 0) return ys.elements.length === 0;
      const map = new Map<number, OrderedSet<UnitIndex>>();
      for (const e of xs.elements) map.set(e.unit.id, e.indices);
      for (const e of ys.elements) {
          if (!map.has(e.unit.id)) continue;
          if (OrderedSet.areIntersecting(map.get(e.unit.id)!, e.indices)) return true;
      }
      return false;
  }
  \<close>
\<close>

fun areIntersecting_ys :: "(int \<times> OrderedSet) list \<Rightarrow> LociElement list \<Rightarrow> bool" where
  "areIntersecting_ys m [] = False"
| "areIntersecting_ys m (e # es) =
     (case map_of m (unit_id (el_unit e)) of
        None \<Rightarrow> areIntersecting_ys m es
      | Some ind \<Rightarrow>
          (if OrderedSet_areIntersecting ind (el_indices e) then True
           else areIntersecting_ys m es))"

definition areIntersecting_body :: "Loci \<Rightarrow> Loci \<Rightarrow> bool" where
  "areIntersecting_body xs ys =
     (if length (loci_elements xs) = 0 then length (loci_elements ys) = 0
      else areIntersecting_ys (indices_map (loci_elements xs)) (loci_elements ys))"

definition Loci_areIntersecting :: "Loci \<Rightarrow> Loci \<Rightarrow> bool" where
  "Loci_areIntersecting xs ys =
     (if length (loci_elements xs) > length (loci_elements ys) then areIntersecting_body ys xs
      else areIntersecting_body xs ys)"

subsection \<open>What a loci selects\<close>

text \<open>
  Two loci are compared as sets: by the unit ids of their elements and by the
  (unit id, index) pairs they select, whatever the order of the elements and the
  representation of an index set.
\<close>

definition elements_ids :: "LociElement list \<Rightarrow> int list" where
  "elements_ids es = map (\<lambda>e. unit_id (el_unit e)) es"

definition element_pairs :: "LociElement \<Rightarrow> (int \<times> nat) list" where
  "element_pairs e = map (\<lambda>i. (unit_id (el_unit e), i)) (OrderedSet_values (el_indices e))"

definition elements_pairs :: "LociElement list \<Rightarrow> (int \<times> nat) set" where
  "elements_pairs es = set (concat (map element_pairs es))"

definition loci_unit_ids :: "Loci \<Rightarrow> int set" where
  "loci_unit_ids l = set (elements_ids (loci_elements l))"

definition loci_pairs :: "Loci \<Rightarrow> (int \<times> nat) set" where
  "loci_pairs l = elements_pairs (loci_elements l)"

definition loci_indices :: "Loci \<Rightarrow> int \<Rightarrow> nat set" where
  "loci_indices l u = {i. (u, i) \<in> loci_pairs l}"

definition set_equal :: "Loci \<Rightarrow> Loci \<Rightarrow> bool" where
  "set_equal a b \<longleftrightarrow> loci_unit_ids a = loci_unit_ids b \<and> loci_pairs a = loci_pairs b"

text \<open>
  A loci over a structure: its elements are units of that structure, at most one
  element for a unit id.
\<close>

definition loci_over :: "Structure \<Rightarrow> Loci \<Rightarrow> bool" where
  "loci_over s l \<longleftrightarrow>
     loci_structure l = s
     \<and> distinct (elements_ids (loci_elements l))
     \<and> list_all (\<lambda>e. unitMap_get s (unit_id (el_unit e)) = Some (el_unit e)) (loci_elements l)"

section \<open>Queries: the serialisable form of a loci (StructureElement.Query)\<close>

text \<open>
  \<^verbatim>\<open>
  interface QueryElement {
      groupedUnits: SortedArray<number>[],
      set: SortedArray<UnitIndex>
      ranges: SortedRanges<UnitIndex>
  }
  export interface Query {
      readonly hash: number
      readonly elements: ReadonlyArray<Readonly<QueryElement>>
  }
  \<close>
  \<open>SortedRanges\<close> is the flat array \<open>[lo0, hi0, lo1, hi1, ...]\<close> of closed ranges.
\<close>

record QueryElement =
  groupedUnits :: "int list list"
  qe_set :: "nat list"
  qe_ranges :: "nat list"

record Query =
  query_hash :: int
  query_elements :: "QueryElement list"

subsection \<open>Sorted ranges and typed arrays\<close>

text \<open>
  Modelled from the spec: \<open>SortedRanges.size\<close> and \<open>SortedRanges.forEach\<close> of
  mol-data/int/sorted-ranges are not part of the sources at hand. The size adds
  \<open>hi - lo + 1\<close> over the pairs; \<open>forEach\<close> visits every value of every range in order,
  handing the callback the value and a running position.
\<close>

fun SortedRanges_size :: "nat list \<Rightarrow> int" where
  "SortedRanges_size (lo # hi # rest) = int hi - int lo + 1 + SortedRanges_size rest"
| "SortedRanges_size rest = 0"

fun SortedRanges_values :: "nat list \<Rightarrow> nat list" where
  "SortedRanges_values (lo # hi # rest) = [lo..<Suc hi] @ SortedRanges_values rest"
| "SortedRanges_values rest = []"

text \<open>
  \<open>new Int32Array(n)\<close> is \<open>n\<close> zeros and raises a RangeError for a negative length.
  A write outside the array is ignored. \<open>target.set(source, offset)\<close> raises a
  RangeError when the source does not fit at the offset.
\<close>

definition Int32Array_new :: "int \<Rightarrow> error + nat list" where
  "Int32Array_new n = (if n < 0 then Inl RangeError else Inr (replicate (nat n) 0))"

definition Int32Array_write :: "nat list \<Rightarrow> int \<Rightarrow> nat \<Rightarrow> nat list" where
  "Int32Array_write arr i v = (if 0 \<le> i \<and> i < int (length arr) then arr[nat i := v] else arr)"

text \<open>The callback \<open>(v, i) => _indices[i + offset] = v\<close> over the values in order.\<close>

fun Int32Array_write_all :: "nat list \<Rightarrow> int \<Rightarrow> nat list \<Rightarrow> nat list" where
  "Int32Array_write_all arr i [] = arr"
| "Int32Array_write_all arr i (v # vs) = Int32Array_write_all (Int32Array_write arr i v) (i + 1) vs"

definition Int32Array_set :: "nat list \<Rightarrow> nat list \<Rightarrow> int \<Rightarrow> error + nat list" where
  "Int32Array_set arr source offset =
     (if offset < 0 \<or> offset + int (length source) > int (length arr) then Inl RangeError
      else Inr (Int32Array_write_all arr offset source))"

subsection \<open>Query.fromLoci\<close>

text \<open>
  The inner loop \<^verbatim>\<open>while (i < len && indices[i - 1] + 1 === indices[i]) i++;\<close>
  on the rest of the array: it returns the values it steps over and what is left.
\<close>

fun take_run :: "nat \<Rightarrow> nat list \<Rightarrow> nat list \<times> nat list" where
  "take_run prev [] = ([], [])"
| "take_run prev (x # xs) =
     (if prev + 1 = x then (let (r, rest) = take_run x xs in (x # r, rest))
      else ([], x # xs))"

lemma take_run_length: "length (snd (take_run prev xs)) \<le> length xs"
  by (induction xs arbitrary: prev) (auto simp add: split_beta le_SucI)

text \<open>
  \<^verbatim>\<open>
  let i = 0, len = indices.length;
  while (i < len) {
      const start = i;
      i++;
      while (i < len && indices[i - 1] + 1 === indices[i]) i++;
      const end = i;
      if (end - start > 2) {
          ranges.push(indices[start], indices[end - 1])
      } else {
          for (let j = start; j < end; j++) {
              set[set.length] = indices[j]
          }
      }
  }
  \<close>
  The result is the pair \<open>(ranges, set)\<close>.
\<close>

function encode_runs :: "nat list \<Rightarrow> nat list \<times> nat list" where
  "encode_runs [] = ([], [])"
| "encode_runs (x # xs) =
     (let (r, rest) = take_run x xs;
          (ranges, set') = encode_runs rest
      in if length (x # r) > 2 then (x # last (x # r) # ranges, set')
         else (ranges, (x # r) @ set'))"
  by pat_completeness auto
termination
  apply (relation "measure length")
   apply simp
  apply (simp add: less_Suc_eq_le)
  apply (metis take_run_length snd_conv)
  done

text \<open>
  \<^verbatim>\<open>
  if (OrderedSet.isInterval(indices)) {
      if (OrderedSet.size(indices) === 1) {
          set.push(Interval.min(indices))
      } else {
          ranges.push(Interval.min(indices), Interval.max(indices))
      }
  } else { ... the loop above ... }
  \<close>
\<close>

definition encode_indices :: "OrderedSet \<Rightarrow> nat list \<times> nat list" where
  "encode_indices indices =
     (if OrderedSet_isInterval indices then
        (if OrderedSet_size indices = 1 then ([], [Interval_min indices])
         else ([Interval_min indices, Interval_max indices], []))
      else encode_runs (OrderedSet_values indices))"

text \<open>The first loop of \<open>fromLoci\<close>: elements without indices are skipped.\<close>

record EncodedElement =
  ee_unit :: Unit
  ee_set :: "nat list"
  ee_ranges :: "nat list"

fun encode_elements :: "LociElement list \<Rightarrow> EncodedElement list" where
  "encode_elements [] = []"
| "encode_elements (e # es) =
     (if OrderedSet_size (el_indices e) = 0 then encode_elements es
      else (let (ranges, set') = encode_indices (el_indices e)
            in \<lparr> ee_unit = el_unit e, ee_set = set', ee_ranges = ranges \<rparr> # encode_elements es))"

text \<open>
  \<^verbatim>\<open>
  const elementGroups = new Map<number, {
      groupedUnits: Map<number, number[]>
      set: SortedArray<UnitIndex>
      ranges: SortedRanges<UnitIndex>
  }>();
  for (let i = 0, il = _elements.length; i < il; ++i) {
      const e = _elements[i]
      const key = hash2(hashFnv32a(e.ranges), hashFnv32a(e.set))
      if (elementGroups.has(key)) {
          const { groupedUnits } = elementGroups.get(key)!
          if (groupedUnits.has(e.unit.invariantId)) {
              groupedUnits.get(e.unit.invariantId)!.push(e.unit.id)
          } else {
              groupedUnits.set(e.unit.invariantId, [e.unit.id])
          }
      } else {
          const groupedUnits = new Map<number, number[]>()
          groupedUnits.set(e.unit.invariantId, [e.unit.id])
          elementGroups.set(key, { groupedUnits, set: e.set, ranges: e.ranges })
      }
  }
  \<close>
  \<open>hashFnv32a\<close> and \<open>hash2\<close> (mol-data/util) are not part of the sources at hand: they
  are parameters of the model. Both maps are association lists in insertion order.
\<close>

record ElementGroup =
  eg_groupedUnits :: "(int \<times> int list) list"
  eg_set :: "nat list"
  eg_ranges :: "nat list"

definition pattern_key :: "(nat list \<Rightarrow> int) \<Rightarrow> (int \<Rightarrow> int \<Rightarrow> int) \<Rightarrow> nat list \<Rightarrow> nat list \<Rightarrow> int" where
  "pattern_key hashFnv32a hash2 ranges set' = hash2 (hashFnv32a ranges) (hashFnv32a set')"

definition add_unit :: "Unit \<Rightarrow> (int \<times> int list) list \<Rightarrow> (int \<times> int list) list" where
  "add_unit u gu =
     (case map_of gu (invariantId u) of
        Some ids \<Rightarrow> AList.update (invariantId u) (ids @ [unit_id u]) gu
      | None \<Rightarrow> AList.update (invariantId u) [unit_id u] gu)"

definition group_element ::
  "(nat list \<Rightarrow> int) \<Rightarrow> (int \<Rightarrow> int \<Rightarrow> int) \<Rightarrow> (int \<times> ElementGroup) list \<Rightarrow> EncodedElement
     \<Rightarrow> (int \<times> ElementGroup) list" where
  "group_element hashFnv32a hash2 elementGroups e =
     (let key = pattern_key hashFnv32a hash2 (ee_ranges e) (ee_set e)
      in case map_of elementGroups key of
           Some g \<Rightarrow>
             AList.update key (g\<lparr> eg_groupedUnits := add_unit (ee_unit e) (eg_groupedUnits g) \<rparr>)
               elementGroups
         | None \<Rightarrow>
             AList.update key
               \<lparr> eg_groupedUnits = add_unit (ee_unit e) [], eg_set = ee_set e, eg_ranges = ee_ranges e \<rparr>
               elementGroups)"

definition group_elements ::
  "(nat list \<Rightarrow> int) \<Rightarrow> (int \<Rightarrow> int \<Rightarrow> int) \<Rightarrow> EncodedElement list \<Rightarrow> (int \<times> ElementGroup) list" where
  "group_elements hashFnv32a hash2 es = foldl (group_element hashFnv32a hash2) [] es"

text \<open>
  \<^verbatim>\<open>
  const elements: QueryElement[] = []
  elementGroups.forEach(e => {
      const groupedUnits: SortedArray<number>[] = []
      e.groupedUnits.forEach(g => groupedUnits.push(SortedArray.ofUnsortedArray(g)))
      groupedUnits.sort((a, b) => a[0] - b[0]) // sort by first unit id of each group
      elements.push({ groupedUnits, set: e.set, ranges: e.ranges })
  })
  return { hash: (loci.structure.parent || loci.structure).hashCode, elements }
  \<close>
  \<open>SortedArray.ofUnsortedArray\<close> sorts; every group holds at least one unit id.
\<close>

definition first_id :: "int list \<Rightarrow> int" where
  "first_id g = (case g of [] \<Rightarrow> 0 | x # _ \<Rightarrow> x)"

definition query_element :: "ElementGroup \<Rightarrow> QueryElement" where
  "query_element e =
     \<lparr> groupedUnits = sort_key first_id (map (\<lambda>(inv, g). sort g) (eg_groupedUnits e)),
       qe_set = eg_set e, qe_ranges = eg_ranges e \<rparr>"

definition fromLoci :: "(nat list \<Rightarrow> int) \<Rightarrow> (int \<Rightarrow> int \<Rightarrow> int) \<Rightarrow> Loci \<Rightarrow> Query" where
  "fromLoci hashFnv32a hash2 loci =
     \<lparr> query_hash = hashCode (root (loci_structure loci)),
       query_elements =
         map (\<lambda>(key, e). query_element e)
           (group_elements hashFnv32a hash2 (encode_elements (loci_elements loci))) \<rparr>"

subsection \<open>Maximal runs, as the specification words them\<close>

text \<open>
  The specification speaks of the maximal runs of consecutive indices of an index
  array. This definition follows those words and not the loop of \<open>fromLoci\<close>: it
  builds the runs from the right, putting an index in front of the run that starts
  with its successor and opening a new run otherwise.
\<close>

fun maximal_runs :: "nat list \<Rightarrow> nat list list" where
  "maximal_runs [] = []"
| "maximal_runs [x] = [[x]]"
| "maximal_runs (x # y # ys) =
     (if x + 1 = y then
        (case maximal_runs (y # ys) of
           r # rs \<Rightarrow> (x # r) # rs
         | [] \<Rightarrow> [[x]])
      else [x] # maximal_runs (y # ys))"

subsection \<open>Query.toLoci\<close>

text \<open>
  \<^verbatim>\<open>
  function getUnitsFromIds(unitIds: ArrayLike<number>, structure: Structure) {
      const units: Unit[] = []
      for (let i = 0, il = unitIds.length; i < il; ++i) {
          const unitId = unitIds[i]
          if (structure.unitMap.has(unitId)) units.push(structure.unitMap.get(unitId))
      }
      return units
  }
  \<close>
\<close>

fun getUnitsFromIds :: "int list \<Rightarrow> Structure \<Rightarrow> Unit list" where
  "getUnitsFromIds [] structure = []"
| "getUnitsFromIds (unitId # unitIds) structure =
     (case unitMap_get structure unitId of
        Some u \<Rightarrow> u # getUnitsFromIds unitIds structure
      | None \<Rightarrow> getUnitsFromIds unitIds structure)"

text \<open>
  \<^verbatim>\<open>
  if (query.hash !== -1 && query.hash !== (parent.parent || parent).hashCode) {
      new Error('Query not compatible with given structure')
  }
  \<close>
  The condition of the guard, and the guard as the code has it: the \<open>Error\<close> object is
  constructed and dropped. There is no \<open>throw\<close>, so nothing is raised and control goes
  on to the statement after the guard in either case.
\<close>

definition hash_mismatch :: "Query \<Rightarrow> Structure \<Rightarrow> bool" where
  "hash_mismatch query parent \<longleftrightarrow>
     query_hash query \<noteq> - 1 \<and> query_hash query \<noteq> hashCode (root parent)"

definition hash_guard :: "Query \<Rightarrow> Structure \<Rightarrow> error option" where
  "hash_guard query parent =
     (let constructed_and_dropped = (if hash_mismatch query parent then Some QueryNotCompatible else None)
      in None)"

text \<open>
  \<^verbatim>\<open>
  let indices: OrderedSet<UnitIndex>
  if (e.ranges.length === 0) {
      indices = e.set
  } else if (e.set.length === 0) {
      if (e.ranges.length === 2) {
          indices = Interval.ofRange(e.ranges[0], e.ranges[1])
      } else {
          const _indices = new Int32Array(SortedRanges.size(e.ranges))
          SortedRanges.forEach(e.ranges, (v, i) => _indices[i] = v)
          indices = SortedArray.ofSortedArray(_indices)
      }
  } else {
      const rangesSize = SortedRanges.size(e.ranges)
      const _indices = new Int32Array(e.set.length + rangesSize)
      SortedRanges.forEach(e.ranges, (v, i) => _indices[i] = v)
      _indices.set(e.set, rangesSize)
      indices = SortedArray.ofUnsortedArray(_indices) // requires sort
  }
  \<close>
\<close>

definition toLoci_indices :: "QueryElement \<Rightarrow> error + OrderedSet" where
  "toLoci_indices e =
     (if length (qe_ranges e) = 0 then Inr (SortedArray (qe_set e))
      else if length (qe_set e) = 0 then
        (case qe_ranges e of
           [lo, hi] \<Rightarrow> Inr (Interval_ofRange lo hi)
         | _ \<Rightarrow>
           (case Int32Array_new (SortedRanges_size (qe_ranges e)) of
              Inl err \<Rightarrow> Inl err
            | Inr arr \<Rightarrow>
                Inr (SortedArray (Int32Array_write_all arr 0 (SortedRanges_values (qe_ranges e))))))
      else
        (let rangesSize = SortedRanges_size (qe_ranges e)
         in case Int32Array_new (int (length (qe_set e)) + rangesSize) of
              Inl err \<Rightarrow> Inl err
            | Inr arr \<Rightarrow>
                (case Int32Array_set
                        (Int32Array_write_all arr 0 (SortedRanges_values (qe_ranges e)))
                        (qe_set e) rangesSize of
                   Inl err \<Rightarrow> Inl err
                 | Inr arr' \<Rightarrow> Inr (SortedArray (sort arr')))))"

text \<open>
  \<^verbatim>\<open>
  const elements: Loci['elements'][0][] = []
  for (const e of query.elements) {
      for (const g of e.groupedUnits) {
          const units = getUnitsFromIds(g, parent)
          if (units.length === 0) continue
          ... indices ...
          for (const unit of units) {
              elements.push({ unit, indices })
          }
      }
  }
  return Loci(parent, elements)
  \<close>
\<close>

fun toLoci_groups :: "QueryElement \<Rightarrow> int list list \<Rightarrow> Structure \<Rightarrow> error + LociElement list" where
  "toLoci_groups e [] parent = Inr []"
| "toLoci_groups e (g # gs) parent =
     (let units = getUnitsFromIds g parent
      in if length units = 0 then toLoci_groups e gs parent
         else
           (case toLoci_indices e of
              Inl err \<Rightarrow> Inl err
            | Inr indices \<Rightarrow>
                (case toLoci_groups e gs parent of
                   Inl err \<Rightarrow> Inl err
                 | Inr rest \<Rightarrow>
                     Inr (map (\<lambda>unit. \<lparr> el_unit = unit, el_indices = indices \<rparr>) units @ rest))))"

fun toLoci_elements :: "QueryElement list \<Rightarrow> Structure \<Rightarrow> error + LociElement list" where
  "toLoci_elements [] parent = Inr []"
| "toLoci_elements (e # es) parent =
     (case toLoci_groups e (groupedUnits e) parent of
        Inl err \<Rightarrow> Inl err
      | Inr elements \<Rightarrow>
          (case toLoci_elements es parent of
             Inl err \<Rightarrow> Inl err
           | Inr rest \<Rightarrow> Inr (elements @ rest)))"

definition toLoci :: "Query \<Rightarrow> Structure \<Rightarrow> error + Loci" where
  "toLoci query parent =
     (case hash_guard query parent of
        Some err \<Rightarrow> Inl err
      | None \<Rightarrow>
          (case toLoci_elements (query_elements query) parent of
             Inl err \<Rightarrow> Inl err
           | Inr elements \<Rightarrow> Inr \<lparr> loci_structure = parent, loci_elements = elements \<rparr>))"

subsection \<open>Query.toStructure\<close>

text \<open>
  \<^verbatim>\<open>
  export function toStructure(query: Query, parent: Structure): Structure {
      if (query.hash !== -1 && query.hash !== (parent.parent || parent).hashCode) {
          new Error('Query not compatible with given structure')
      }
      const units: Unit[] = []
      for (const e of query.elements) {
          for (const g of e.groupedUnits) {
              const _units = getUnitsFromIds(g, parent)
              if (_units.length === 0) continue
              const unit = _units[0] // the elements are grouped by unit.invariantId
              const rangesSize = SortedRanges.size(e.ranges)
              const _indices = new Int32Array(e.set.length + rangesSize)
              let indices: SortedArray<ElementIndex>
              if (e.ranges.length === 0) {
                  for (let i = 0, il = e.set.length; i < il; ++i) {
                      _indices[i] = unit.elements[e.set[i]]
                  }
                  indices = SortedArray.ofSortedArray(_indices)
              } else if (e.set.length === 0) {
                  SortedRanges.forEach(e.ranges, (v, i) => _indices[i] = unit.elements[v])
                  indices = SortedArray.ofSortedArray(_indices)
              } else {
                  const rangesSize = SortedRanges.size(e.ranges)
                  SortedRanges.forEach(e.ranges, (v, i) => _indices[i] = unit.elements[v])
                  SortedRanges.forEach(e.set, (v, i) => _indices[i + rangesSize] = unit.elements[v])
                  indices = SortedArray.ofUnsortedArray(_indices) // requires sort
              }
              for (const unit of _units) {
                  units.push(unit.getChild(indices))
              }
          }
      }
      return Structure.create(units, { parent })
  }
  \<close>
  \<open>Unit.getChild\<close> and \<open>Structure.create\<close> are not part of the sources at hand:
  they are parameters. \<open>unit.elements[v]\<close> beyond the array is \<open>undefined\<close>, which
  an \<open>Int32Array\<close> stores as 0.
\<close>

definition elements_at :: "Unit \<Rightarrow> nat \<Rightarrow> nat" where
  "elements_at unit v = (if v < length (unit_elements unit) then unit_elements unit ! v else 0)"

definition toStructure_indices :: "Unit \<Rightarrow> QueryElement \<Rightarrow> error + nat list" where
  "toStructure_indices unit e =
     (let rangesSize = SortedRanges_size (qe_ranges e)
      in case Int32Array_new (int (length (qe_set e)) + rangesSize) of
           Inl err \<Rightarrow> Inl err
         | Inr arr \<Rightarrow>
             (if length (qe_ranges e) = 0 then
                Inr (Int32Array_write_all arr 0 (map (elements_at unit) (qe_set e)))
              else if length (qe_set e) = 0 then
                Inr (Int32Array_write_all arr 0
                       (map (elements_at unit) (SortedRanges_values (qe_ranges e))))
              else
                Inr (sort
                  (Int32Array_write_all
                     (Int32Array_write_all arr 0
                        (map (elements_at unit) (SortedRanges_values (qe_ranges e))))
                     rangesSize
                     (map (elements_at unit) (SortedRanges_values (qe_set e)))))))"

fun toStructure_groups ::
  "(Unit \<Rightarrow> nat list \<Rightarrow> Unit) \<Rightarrow> QueryElement \<Rightarrow> int list list \<Rightarrow> Structure \<Rightarrow> error + Unit list" where
  "toStructure_groups getChild e [] parent = Inr []"
| "toStructure_groups getChild e (g # gs) parent =
     (case getUnitsFromIds g parent of
        [] \<Rightarrow> toStructure_groups getChild e gs parent
      | unit # more_units \<Rightarrow>
          (case toStructure_indices unit e of
             Inl err \<Rightarrow> Inl err
           | Inr indices \<Rightarrow>
               (case toStructure_groups getChild e gs parent of
                  Inl err \<Rightarrow> Inl err
                | Inr rest \<Rightarrow>
                    Inr (map (\<lambda>u. getChild u indices) (unit # more_units) @ rest))))"

fun toStructure_elements ::
  "(Unit \<Rightarrow> nat list \<Rightarrow> Unit) \<Rightarrow> QueryElement list \<Rightarrow> Structure \<Rightarrow> error + Unit list" where
  "toStructure_elements getChild [] parent = Inr []"
| "toStructure_elements getChild (e # es) parent =
     (case toStructure_groups getChild e (groupedUnits e) parent of
        Inl err \<Rightarrow> Inl err
      | Inr units \<Rightarrow>
          (case toStructure_elements getChild es parent of
             Inl err \<Rightarrow> Inl err
           | Inr rest \<Rightarrow> Inr (units @ rest)))"

definition toStructure ::
  "(Unit list \<Rightarrow> Structure \<Rightarrow> Structure) \<Rightarrow> (Unit \<Rightarrow> nat list \<Rightarrow> Unit) \<Rightarrow> Query \<Rightarrow> Structure
     \<Rightarrow> error + Structure" where
  "toStructure Structure_create getChild query parent =
     (case hash_guard query parent of
        Some err \<Rightarrow> Inl err
      | None \<Rightarrow>
          (case toStructure_elements getChild (query_elements query) parent of
             Inl err \<Rightarrow> Inl err
           | Inr units \<Rightarrow> Inr (Structure_create units parent)))"

subsection \<open>Auxiliary notions for the round trip\<close>

text \<open>
  Ranges are well formed when they come in pairs with \<open>lo \<le> hi\<close>. The unit ids of a
  group of \<open>fromLoci\<close>, and the (unit id, ranges, set) entries of all groups.
\<close>

fun ranges_wf :: "nat list \<Rightarrow> bool" where
  "ranges_wf [] = True"
| "ranges_wf [x] = False"
| "ranges_wf (lo # hi # rest) = (lo \<le> hi \<and> ranges_wf rest)"

definition group_ids :: "ElementGroup \<Rightarrow> int set" where
  "group_ids g = (\<Union>p \<in> set (eg_groupedUnits g). set (snd p))"

definition group_entries :: "(int \<times> ElementGroup) list \<Rightarrow> (int \<times> nat list \<times> nat list) set" where
  "group_entries G = (\<Union>p \<in> set G. (\<lambda>i. (i, eg_ranges (snd p), eg_set (snd p))) ` group_ids (snd p))"

definition query_entries :: "QueryElement list \<Rightarrow> (int \<times> nat list \<times> nat list) set" where
  "query_entries Q =
     (\<Union>q \<in> set Q. (\<lambda>i. (i, qe_ranges q, qe_set q)) ` (\<Union>g \<in> set (groupedUnits q). set g))"

definition encoded_entries :: "EncodedElement list \<Rightarrow> (int \<times> nat list \<times> nat list) set" where
  "encoded_entries E = (\<lambda>e. (unit_id (ee_unit e), ee_ranges e, ee_set e)) ` set E"

text \<open>
  What the grouping loop of \<open>fromLoci\<close> keeps true, for a key function and a set \<open>P\<close>
  of patterns: the keys of the groups differ, every group is filed under the key of its
  own pattern, and its pattern is one of \<open>P\<close>.
\<close>

definition groups_inv ::
  "(nat list \<Rightarrow> nat list \<Rightarrow> int) \<Rightarrow> (nat list \<times> nat list) set \<Rightarrow> (int \<times> ElementGroup) list \<Rightarrow> bool" where
  "groups_inv key P G \<longleftrightarrow>
     distinct (map fst G)
     \<and> (\<forall>p \<in> set G.
           distinct (map fst (eg_groupedUnits (snd p)))
           \<and> (eg_ranges (snd p), eg_set (snd p)) \<in> P
           \<and> fst p = key (eg_ranges (snd p)) (eg_set (snd p)))"

section \<open>Model properties (mol-model-formats/structure/basic/properties.ts)\<close>

subsection \<open>getMissingResidues\<close>

text \<open>
  \<^verbatim>\<open>
  function getMissingResidues(data: BasicData): Model['properties']['missingResidues'] {
      const map = new Map<string, MissingResidue>();
      const getKey = (model_num: number, asym_id: string, seq_id: number) => {
          return `${model_num}|${asym_id}|${seq_id}`
      }
      const c = data.pdbx_unobs_or_zero_occ_residues
      for (let i = 0, il = c._rowCount; i < il; ++i) {
          const key = getKey(c.PDB_model_num.value(i), c.label_asym_id.value(i), c.label_seq_id.value(i))
          map.set(key, { polymer_flag: c.polymer_flag.value(i), occupancy_flag: c.occupancy_flag.value(i) })
      }
      return {
          has: (model_num: number, asym_id: string, seq_id: number) => {
              return map.has(getKey(model_num, asym_id, seq_id))
          },
          get: (model_num: number, asym_id: string, seq_id: number) => {
              return map.get(getKey(model_num, asym_id, seq_id))
          },
          size: map.size
      }
  }
  \<close>
  The table is the list of its rows, each row holding the values of the five columns
  read. Model numbers and sequence ids are integers; a template literal renders a
  number in decimal, with a leading minus sign when it is negative. The
  \<open>Map<string, MissingResidue>\<close> is an association list in insertion order;
  \<open>map.get\<close> of an absent key is \<open>undefined\<close>, here \<open>None\<close>.
\<close>

text \<open>Number to string.\<close>

definition digit_char :: "nat \<Rightarrow> char" where
  "digit_char d = ''0123456789'' ! d"

function nat_toString :: "nat \<Rightarrow> string" where
  "nat_toString n =
     (if n < 10 then [digit_char n] else nat_toString (n div 10) @ [digit_char (n mod 10)])"
  by pat_completeness auto
termination
  by (relation "measure id") auto

declare nat_toString.simps [simp del]

definition number_toString :: "int \<Rightarrow> string" where
  "number_toString i =
     (if i < 0 then CHR ''-'' # nat_toString (nat (- i)) else nat_toString (nat i))"

definition getKey :: "int \<Rightarrow> string \<Rightarrow> int \<Rightarrow> string" where
  "getKey model_num asym_id seq_id =
     number_toString model_num @ ''|'' @ asym_id @ ''|'' @ number_toString seq_id"

record MissingResidue =
  polymer_flag :: string
  occupancy_flag :: int

record UnobsRow =
  col_PDB_model_num :: int
  col_label_asym_id :: string
  col_label_seq_id :: int
  col_polymer_flag :: string
  col_occupancy_flag :: int

record MissingResidues =
  mr_has :: "int \<Rightarrow> string \<Rightarrow> int \<Rightarrow> bool"
  mr_get :: "int \<Rightarrow> string \<Rightarrow> int \<Rightarrow> MissingResidue option"
  mr_size :: nat

definition missing_map :: "UnobsRow list \<Rightarrow> (string \<times> MissingResidue) list" where
  "missing_map c =
     foldl (\<lambda>m r. AList.update
                     (getKey (col_PDB_model_num r) (col_label_asym_id r) (col_label_seq_id r))
                     \<lparr> polymer_flag = col_polymer_flag r, occupancy_flag = col_occupancy_flag r \<rparr>
                     m) [] c"

definition getMissingResidues :: "UnobsRow list \<Rightarrow> MissingResidues" where
  "getMissingResidues c =
     (let m = missing_map c
      in \<lparr> mr_has = (\<lambda>model_num asym_id seq_id. map_of m (getKey model_num asym_id seq_id) \<noteq> None),
           mr_get = (\<lambda>model_num asym_id seq_id. map_of m (getKey model_num asym_id seq_id)),
           mr_size = length m \<rparr>)"

definition row_key :: "UnobsRow \<Rightarrow> int \<times> string \<times> int" where
  "row_key r = (col_PDB_model_num r, col_label_asym_id r, col_label_seq_id r)"

definition row_flags :: "UnobsRow \<Rightarrow> MissingResidue" where
  "row_flags r = \<lparr> polymer_flag = col_polymer_flag r, occupancy_flag = col_occupancy_flag r \<rparr>"

definition row_getKey :: "UnobsRow \<Rightarrow> string" where
  "row_getKey r = getKey (col_PDB_model_num r) (col_label_asym_id r) (col_label_seq_id r)"

subsection \<open>A small structure for concrete evaluations\<close>

text \<open>Three units, two of them with the same invariant id, in one structure without parent.\<close>

definition example_unit1 :: Unit where
  "example_unit1 = \<lparr> unit_id = 1, invariantId = 10, unit_elements = [0, 1, 2, 3] \<rparr>"

definition example_unit2 :: Unit where
  "example_unit2 = \<lparr> unit_id = 2, invariantId = 10, unit_elements = [0, 1, 2, 3] \<rparr>"

definition example_unit3 :: Unit where
  "example_unit3 = \<lparr> unit_id = 3, invariantId = 11, unit_elements = [0, 1, 2, 3] \<rparr>"

definition example_structure :: Structure where
  "example_structure = Structure [example_unit1, example_unit2, example_unit3] 7 None"

definition example_loci :: "(Unit \<times> OrderedSet) list \<Rightarrow> Loci" where
  "example_loci es = \<lparr> loci_structure = example_structure,
      loci_elements = map (\<lambda>(u, ind). \<lparr> el_unit = u, el_indices = ind \<rparr>) es \<rparr>"

lemmas example_defs =
  example_unit1_def example_unit2_def example_unit3_def example_structure_def example_loci_def

text \<open>A table of unobserved residues with one key in two rows.\<close>

definition example_table :: "UnobsRow list" where
  "example_table =
     [\<lparr> col_PDB_model_num = 1, col_label_asym_id = ''A'', col_label_seq_id = 5,
        col_polymer_flag = ''Y'', col_occupancy_flag = 1 \<rparr>,
      \<lparr> col_PDB_model_num = 1, col_label_asym_id = ''A'', col_label_seq_id = 6,
        col_polymer_flag = ''N'', col_occupancy_flag = 0 \<rparr>,
      \<lparr> col_PDB_model_num = 1, col_label_asym_id = ''A'', col_label_seq_id = 5,
        col_polymer_flag = ''N'', col_occupancy_flag = 0 \<rparr>]"

section \<open>Theorems\<close>

subsection \<open>Bit flags with a zero test mask\<close>

text \<open>
  C8 (as the code has it): with a zero test mask neither operation returns true
  unconditionally. \<open>hasAny(tested, 0)\<close> is true exactly when the tested value is
  truthy (non-zero); \<open>hasAll(tested, 0)\<close> is true exactly when the tested value is
  falsy (zero).
\<close>

theorem flags_zero_mask:
  "(hasAny tested 0 \<longleftrightarrow> tested \<noteq> 0) \<and> (hasAll tested 0 \<longleftrightarrow> tested = 0)
   \<and> \<not> (\<forall>t. hasAny t 0) \<and> \<not> (\<forall>t. hasAll t 0)"
proof -
  have a: "hasAny tested 0 \<longleftrightarrow> tested \<noteq> 0" by (simp add: hasAny_def)
  have b: "hasAll tested 0 \<longleftrightarrow> tested = 0" by (simp add: hasAll_def)
  have c: "\<not> hasAny 0 0" by (simp add: hasAny_def)
  have d: "\<not> hasAll 1 0" by (simp add: hasAll_def)
  from a b c d show ?thesis by blast
qed

text \<open>
  C8 (as stated) fails: the tested value 5 is not falsy, and \<open>hasAny(5, 0)\<close> is true;
  the tested value 0 is falsy, and \<open>hasAny(0, 0)\<close> is false.
\<close>

theorem hasAny_zero_mask_counterexample:
  "hasAny 5 0 \<and> truthy (JSNum 5) \<and> \<not> hasAny 0 0 \<and> \<not> truthy (JSNum 0)"
  by (simp add: hasAny_def)

subsection \<open>Bond flag keywords\<close>

lemma linkFlag_keyword_bit:
  "linkFlag F cur (JSStr k) = Inr (cur OR keyword_bit F k)"
  by (simp add: keyword_bit_def Let_def)

lemma linkFlags_loop_fold:
  "map (\<lambda>t. t ctx) ts = map JSStr ks \<Longrightarrow>
   linkFlags_loop F ctx ret ts = Inr (foldl (\<lambda>acc k. acc OR keyword_bit F k) ret ks)"
proof (induction ts arbitrary: ret ks)
  case Nil
  then show ?case by simp
next
  case (Cons t ts)
  then obtain k ks' where ks: "ks = k # ks'" "t ctx = JSStr k"
    "map (\<lambda>t. t ctx) ts = map JSStr ks'" by (cases ks) auto
  show ?case unfolding ks(1) using ks(2) Cons.IH[OF ks(3)]
    by (simp add: linkFlag_keyword_bit del: linkFlag.simps)
qed

lemma bit_fold_or:
  "bit (foldl (\<lambda>acc k. acc OR f k) (ret :: 32 word) ks) n \<longleftrightarrow>
     bit ret n \<or> (\<exists>k \<in> set ks. bit (f k) n)"
  by (induction ks arbitrary: ret) (auto simp add: bit_or_iff)

text \<open>
  C7: evaluating \<open>linkFlags\<close> on the argument list \<open>['covalent', 'bogus']\<close> raises no
  error and returns \<open>None | Covalent\<close>, which is \<open>LinkType.Flag.Covalent\<close> alone when
  \<open>LinkType.Flag.None\<close> is the zero flag. For every list of keyword arguments,
  positional or named, \<open>linkFlags\<close> raises no error and returns \<open>LinkType.Flag.None\<close>
  with the bit of every keyword of the list or-ed in, one after the other: a bit is set
  in the result exactly when it is set in \<open>None\<close> or in the bit of some keyword of
  the list. A recognised keyword has the flag of its name as its bit, and a keyword
  that is not recognised has no bit and leaves the value as it is.
\<close>

theorem linkFlags_covalent_bogus:
  fixes F :: LinkTypeFlag and ctx :: 'ctx
  shows "linkFlags F ctx (Positional [\<lambda>_. JSStr ''covalent'', \<lambda>_. JSStr ''bogus''])
           = Inr (Flag_None F OR Flag_Covalent F)
       \<and> (Flag_None F = 0 \<longrightarrow>
            linkFlags F ctx (Positional [\<lambda>_. JSStr ''covalent'', \<lambda>_. JSStr ''bogus''])
              = Inr (Flag_Covalent F))
       \<and> (map (\<lambda>t. t ctx) ts = map JSStr ks \<longrightarrow>
            linkFlags F ctx (Positional ts)
              = Inr (foldl (\<lambda>acc k. acc OR keyword_bit F k) (Flag_None F) ks)
            \<and> (\<exists>r. linkFlags F ctx (Positional ts) = Inr r
                  \<and> (\<forall>n. bit r n \<longleftrightarrow>
                        bit (Flag_None F) n \<or> (\<exists>k \<in> set ks. bit (keyword_bit F k) n))))
       \<and> (map (\<lambda>p. snd p ctx) kts = map JSStr ks \<longrightarrow>
            linkFlags F ctx (Named kts)
              = Inr (foldl (\<lambda>acc k. acc OR keyword_bit F k) (Flag_None F) ks))
       \<and> keyword_bit F ''covalent'' = Flag_Covalent F
       \<and> keyword_bit F ''metallic'' = Flag_MetallicCoordination F
       \<and> keyword_bit F ''ion'' = Flag_Ionic F
       \<and> keyword_bit F ''hydrogen'' = Flag_Hydrogen F
       \<and> keyword_bit F ''sulfide'' = Flag_Sulfide F
       \<and> keyword_bit F ''aromatic'' = Flag_Aromatic F
       \<and> keyword_bit F ''computed'' = Flag_Computed F
       \<and> (toLowerCase s \<notin> {''covalent'', ''metallic'', ''ion'', ''hydrogen'', ''sulfide'',
              ''aromatic'', ''computed''} \<longrightarrow> keyword_bit F s = 0)
       \<and> linkFlag F cur (JSStr ''covalent'') = Inr (cur OR Flag_Covalent F)
       \<and> linkFlag F cur (JSStr ''metallic'') = Inr (cur OR Flag_MetallicCoordination F)
       \<and> linkFlag F cur (JSStr ''ion'') = Inr (cur OR Flag_Ionic F)
       \<and> linkFlag F cur (JSStr ''hydrogen'') = Inr (cur OR Flag_Hydrogen F)
       \<and> linkFlag F cur (JSStr ''sulfide'') = Inr (cur OR Flag_Sulfide F)
       \<and> linkFlag F cur (JSStr ''aromatic'') = Inr (cur OR Flag_Aromatic F)
       \<and> linkFlag F cur (JSStr ''computed'') = Inr (cur OR Flag_Computed F)
       \<and> (toLowerCase s \<notin> {''covalent'', ''metallic'', ''ion'', ''hydrogen'', ''sulfide'',
              ''aromatic'', ''computed''} \<longrightarrow> linkFlag F cur (JSStr s) = Inr cur)"
proof -
  have a: "linkFlags F ctx (Positional [\<lambda>_. JSStr ''covalent'', \<lambda>_. JSStr ''bogus''])
           = Inr (Flag_None F OR Flag_Covalent F)"
    by (simp add: toLowerCase_def lower_char_def)
  have a2: "Flag_None F = 0 \<longrightarrow>
            linkFlags F ctx (Positional [\<lambda>_. JSStr ''covalent'', \<lambda>_. JSStr ''bogus''])
              = Inr (Flag_Covalent F)"
  proof
    assume z: "Flag_None F = 0"
    have "Flag_None F OR Flag_Covalent F = Flag_Covalent F" unfolding z by simp
    then show "linkFlags F ctx (Positional [\<lambda>_. JSStr ''covalent'', \<lambda>_. JSStr ''bogus''])
              = Inr (Flag_Covalent F)"
      unfolding a by (rule arg_cong)
  qed
  have b: "map (\<lambda>t. t ctx) ts = map JSStr ks \<longrightarrow>
            linkFlags F ctx (Positional ts)
              = Inr (foldl (\<lambda>acc k. acc OR keyword_bit F k) (Flag_None F) ks)
            \<and> (\<exists>r. linkFlags F ctx (Positional ts) = Inr r
                  \<and> (\<forall>n. bit r n \<longleftrightarrow>
                        bit (Flag_None F) n \<or> (\<exists>k \<in> set ks. bit (keyword_bit F k) n)))"
    by (simp add: linkFlags_loop_fold bit_fold_or)
  have c: "map (\<lambda>p. snd p ctx) kts = map JSStr ks \<longrightarrow>
            linkFlags F ctx (Named kts)
              = Inr (foldl (\<lambda>acc k. acc OR keyword_bit F k) (Flag_None F) ks)"
  proof
    assume "map (\<lambda>p. snd p ctx) kts = map JSStr ks"
    then have "map (\<lambda>t. t ctx) (map snd kts) = map JSStr ks" by (simp add: comp_def)
    then show "linkFlags F ctx (Named kts)
              = Inr (foldl (\<lambda>acc k. acc OR keyword_bit F k) (Flag_None F) ks)"
      by (simp add: linkFlags_loop_fold)
  qed
  have d: "keyword_bit F ''covalent'' = Flag_Covalent F"
    "keyword_bit F ''metallic'' = Flag_MetallicCoordination F"
    "keyword_bit F ''ion'' = Flag_Ionic F"
    "keyword_bit F ''hydrogen'' = Flag_Hydrogen F"
    "keyword_bit F ''sulfide'' = Flag_Sulfide F"
    "keyword_bit F ''aromatic'' = Flag_Aromatic F"
    "keyword_bit F ''computed'' = Flag_Computed F"
    by (simp_all add: keyword_bit_def toLowerCase_def lower_char_def)
  have e: "toLowerCase s \<notin> {''covalent'', ''metallic'', ''ion'', ''hydrogen'', ''sulfide'',
              ''aromatic'', ''computed''} \<longrightarrow> keyword_bit F s = 0"
    by (simp add: keyword_bit_def)
  have f: "linkFlag F cur (JSStr ''covalent'') = Inr (cur OR Flag_Covalent F)"
    "linkFlag F cur (JSStr ''metallic'') = Inr (cur OR Flag_MetallicCoordination F)"
    "linkFlag F cur (JSStr ''ion'') = Inr (cur OR Flag_Ionic F)"
    "linkFlag F cur (JSStr ''hydrogen'') = Inr (cur OR Flag_Hydrogen F)"
    "linkFlag F cur (JSStr ''sulfide'') = Inr (cur OR Flag_Sulfide F)"
    "linkFlag F cur (JSStr ''aromatic'') = Inr (cur OR Flag_Aromatic F)"
    "linkFlag F cur (JSStr ''computed'') = Inr (cur OR Flag_Computed F)"
    by (simp_all add: toLowerCase_def lower_char_def)
  have g: "toLowerCase s \<notin> {''covalent'', ''metallic'', ''ion'', ''hydrogen'', ''sulfide'',
              ''aromatic'', ''computed''} \<longrightarrow> linkFlag F cur (JSStr s) = Inr cur"
    by simp
  show ?thesis
    by (intro conjI) (rule a a2 b c d e f g)+
qed

theorem linkFlags_covalent_bogus_witness:
  "linkFlags \<lparr> Flag_None = 0, Flag_Covalent = 1, Flag_MetallicCoordination = 2,
               Flag_Ionic = 8, Flag_Hydrogen = 4, Flag_Sulfide = 16, Flag_Aromatic = 32,
               Flag_Computed = 64 \<rparr> ()
     (Positional [\<lambda>_. JSStr ''covalent'', \<lambda>_. JSStr ''bogus'']) = Inr 1
   \<and> linkFlags \<lparr> Flag_None = 0, Flag_Covalent = 1, Flag_MetallicCoordination = 2,
               Flag_Ionic = 8, Flag_Hydrogen = 4, Flag_Sulfide = 16, Flag_Aromatic = 32,
               Flag_Computed = 64 \<rparr> ()
     (Positional [\<lambda>_. JSStr ''bogus'', \<lambda>_. JSStr ''covalent'']) = Inr 1
   \<and> linkFlags \<lparr> Flag_None = 0, Flag_Covalent = 1, Flag_MetallicCoordination = 2,
               Flag_Ionic = 8, Flag_Hydrogen = 4, Flag_Sulfide = 16, Flag_Aromatic = 32,
               Flag_Computed = 64 \<rparr> ()
     (Positional [\<lambda>_. JSStr ''covalent'', \<lambda>_. JSStr ''Hydrogen'']) = Inr 5
   \<and> linkFlags \<lparr> Flag_None = 0, Flag_Covalent = 1, Flag_MetallicCoordination = 2,
               Flag_Ionic = 8, Flag_Hydrogen = 4, Flag_Sulfide = 16, Flag_Aromatic = 32,
               Flag_Computed = 64 \<rparr> ()
     (Named [(''0'', \<lambda>_. JSStr ''ion''), (''1'', \<lambda>_. JSStr ''computed'')]) = Inr 72
   \<and> toLowerCase ''bogus'' \<notin> {''covalent'', ''metallic'', ''ion'', ''hydrogen'', ''sulfide'',
              ''aromatic'', ''computed''}
   \<and> linkFlag \<lparr> Flag_None = 0, Flag_Covalent = 1, Flag_MetallicCoordination = 2,
               Flag_Ionic = 8, Flag_Hydrogen = 4, Flag_Sulfide = 16, Flag_Aromatic = 32,
               Flag_Computed = 64 \<rparr> 1 (JSStr ''bogus'') = Inr 1"
proof -
  let ?F = "\<lparr> Flag_None = 0, Flag_Covalent = 1, Flag_MetallicCoordination = 2,
               Flag_Ionic = 8, Flag_Hydrogen = 4, Flag_Sulfide = 16, Flag_Aromatic = 32,
               Flag_Computed = 64 \<rparr>"
  have lc: "toLowerCase ''Hydrogen'' = ''hydrogen''" by code_simp
  have kb: "keyword_bit ?F ''bogus'' = 0" "keyword_bit ?F ''covalent'' = 1"
    "keyword_bit ?F ''ion'' = 8" "keyword_bit ?F ''computed'' = 64"
    by (simp_all add: keyword_bit_def toLowerCase_def lower_char_def)
  have kh: "keyword_bit ?F ''Hydrogen'' = 4"
    unfolding keyword_bit_def lc by simp
  have nb: "toLowerCase ''bogus'' \<notin> {''covalent'', ''metallic'', ''ion'', ''hydrogen'', ''sulfide'',
              ''aromatic'', ''computed''}"
    by (simp add: toLowerCase_def lower_char_def)
  show ?thesis
    using linkFlags_covalent_bogus [of ?F "()" "[\<lambda>_. JSStr ''covalent'', \<lambda>_. JSStr ''bogus'']"
        "[''covalent'', ''bogus'']" "[]" "''bogus''" 1]
      linkFlags_covalent_bogus [of ?F "()" "[\<lambda>_. JSStr ''bogus'', \<lambda>_. JSStr ''covalent'']"
        "[''bogus'', ''covalent'']" "[]" "''bogus''" 1]
      linkFlags_covalent_bogus [of ?F "()" "[\<lambda>_. JSStr ''covalent'', \<lambda>_. JSStr ''Hydrogen'']"
        "[''covalent'', ''Hydrogen'']"
        "[(''0'', \<lambda>_. JSStr ''ion''), (''1'', \<lambda>_. JSStr ''computed'')]" "''bogus''" 1]
      linkFlags_covalent_bogus [of ?F "()" "[]" "[''ion'', ''computed'']"
        "[(''0'', \<lambda>_. JSStr ''ion''), (''1'', \<lambda>_. JSStr ''computed'')]" "''bogus''" 1]
      nb
    by (simp add: kb kh)
qed

subsection \<open>Layer count of includeConnected\<close>

text \<open>
  C10: the layer count forwarded by the \<open>includeConnected\<close> symbol is 1 when the
  \<open>layer-count\<close> argument is absent and also whenever its thunk evaluates to a falsy
  value, in particular 0; the forwarded value is never zero.
\<close>

theorem includeConnected_layerCount:
  "(arg_named xs ''layer-count'' = None \<longrightarrow>
      layerCount (includeConnected_params ctx xs) = JSNum 1)
   \<and> (\<forall>t. arg_named xs ''layer-count'' = Some t \<and> \<not> truthy (t ctx) \<longrightarrow>
      layerCount (includeConnected_params ctx xs) = JSNum 1)
   \<and> (\<forall>t. arg_named xs ''layer-count'' = Some t \<and> truthy (t ctx) \<longrightarrow>
      layerCount (includeConnected_params ctx xs) = t ctx)
   \<and> layerCount (includeConnected_params ctx xs) \<noteq> JSNum 0
   \<and> truthy (layerCount (includeConnected_params ctx xs))"
  by (auto simp add: includeConnected_params_def js_or_def and_call_def)

theorem includeConnected_layerCount_witness:
  "arg_named (Named [(''0'', \<lambda>_. JSUndefined)]) ''layer-count'' = None
   \<and> layerCount (includeConnected_params () (Named [(''0'', \<lambda>_. JSUndefined)])) = JSNum 1
   \<and> arg_named (Named [(''layer-count'', \<lambda>_. JSNum 0)]) ''layer-count'' = Some (\<lambda>_. JSNum 0)
   \<and> \<not> truthy (JSNum 0)
   \<and> layerCount (includeConnected_params () (Named [(''layer-count'', \<lambda>_. JSNum 0)])) = JSNum 1
   \<and> arg_named (Named [(''layer-count'', \<lambda>_. JSNum 3)]) ''layer-count'' = Some (\<lambda>_. JSNum 3)
   \<and> truthy (JSNum 3)
   \<and> layerCount (includeConnected_params () (Named [(''layer-count'', \<lambda>_. JSNum 3)])) = JSNum 3"
  using includeConnected_layerCount [of "Named [(''0'', \<lambda>_. JSUndefined)]" "()"]
    includeConnected_layerCount [of "Named [(''layer-count'', \<lambda>_. JSNum 0)]" "()"]
    includeConnected_layerCount [of "Named [(''layer-count'', \<lambda>_. JSNum 3)]" "()"]
  by simp

subsection \<open>Loci: selections, maps and the loops of union and subtract\<close>

lemma elements_ids_simps [simp]:
  "elements_ids [] = []" "elements_ids (e # es) = unit_id (el_unit e) # elements_ids es"
  "elements_ids (as @ bs) = elements_ids as @ elements_ids bs"
  by (simp_all add: elements_ids_def)

lemma elements_pairs_simps [simp]:
  "elements_pairs [] = {}"
  "elements_pairs (e # es) = set (element_pairs e) \<union> elements_pairs es"
  "elements_pairs (as @ bs) = elements_pairs as \<union> elements_pairs bs"
  by (simp_all add: elements_pairs_def)

lemma set_element_pairs:
  "set (element_pairs e) = {unit_id (el_unit e)} \<times> set (OrderedSet_values (el_indices e))"
  by (auto simp add: element_pairs_def)

lemma elements_pairs_iff:
  "(i, x) \<in> elements_pairs es \<longleftrightarrow>
     (\<exists>e \<in> set es. unit_id (el_unit e) = i \<and> x \<in> set (OrderedSet_values (el_indices e)))"
  by (induction es) (auto simp add: set_element_pairs)

lemma set_SortedArray_union [simp]:
  "set (SortedArray_union xs ys) = set xs \<union> set ys"
  by (induction xs ys rule: SortedArray_union.induct) auto

lemma set_OrderedSet_union [simp]:
  "set (OrderedSet_values (OrderedSet_union a b)) =
     set (OrderedSet_values a) \<union> set (OrderedSet_values b)"
  by (cases a; cases b) auto

lemma set_OrderedSet_subtract [simp]:
  "set (OrderedSet_values (OrderedSet_subtract a b)) =
     set (OrderedSet_values a) - set (OrderedSet_values b)"
  by (auto simp add: OrderedSet_subtract_def)

lemma OrderedSet_size_0_iff:
  "OrderedSet_size a = 0 \<longleftrightarrow> set (OrderedSet_values a) = {}"
  by (cases a) auto

lemma map_of_indices_map_aux:
  "map_of (foldl (\<lambda>m e. AList.update (unit_id (el_unit e)) (el_indices e) m) m0 es) =
   map_of m0 ++ map_of (rev (map (\<lambda>e. (unit_id (el_unit e), el_indices e)) es))"
  by (induction es arbitrary: m0) (auto simp add: update_conv' map_add_def fun_eq_iff split: option.splits)

lemma distinct_indices_map_aux:
  "distinct (map fst m0) \<Longrightarrow>
   distinct (map fst (foldl (\<lambda>m e. AList.update (unit_id (el_unit e)) (el_indices e) m) m0 es))"
  by (induction es arbitrary: m0) (auto simp add: distinct_update)

lemma distinct_indices_map: "distinct (map fst (indices_map es))"
  by (simp add: indices_map_def distinct_indices_map_aux)

lemma map_of_indices_map:
  "distinct (elements_ids es) \<Longrightarrow>
   map_of (indices_map es) i = Some ind \<longleftrightarrow>
     (\<exists>e \<in> set es. unit_id (el_unit e) = i \<and> el_indices e = ind)"
proof -
  assume d: "distinct (elements_ids es)"
  let ?kv = "map (\<lambda>e. (unit_id (el_unit e), el_indices e)) es"
  have dk: "distinct (map fst ?kv)" using d by (simp add: elements_ids_def comp_def)
  have "map_of (indices_map es) = map_of (rev ?kv)"
    by (simp add: indices_map_def map_of_indices_map_aux)
  also have "\<dots> = map_of ?kv"
  proof (rule map_of_inject_set[THEN iffD2])
    show "distinct (map fst (rev ?kv))" using dk by (simp add: rev_map[symmetric] del: map_map)
    show "distinct (map fst ?kv)" by (rule dk)
    show "set (rev ?kv) = set ?kv" by simp
  qed
  finally have "map_of (indices_map es) i = Some ind \<longleftrightarrow> (i, ind) \<in> set ?kv"
    using dk by (simp add: map_of_eq_Some_iff)
  then show ?thesis by auto
qed

lemma map_of_indices_map_None:
  "map_of (indices_map es) i = None \<longleftrightarrow> i \<notin> set (elements_ids es)"
proof -
  have "dom (map_of (indices_map es)) = set (elements_ids es)"
    by (simp add: indices_map_def map_of_indices_map_aux dom_map_of_conv_image_fst elements_ids_def image_image)
  then show ?thesis by (metis domIff)
qed

lemma union_ys_units:
  "map el_unit (fst (union_ys es m)) = map el_unit es"
  by (induction es arbitrary: m) (simp_all add: split_beta split: option.splits)

lemma union_ys_map_of:
  "map_of (snd (union_ys es m)) i = (if i \<in> set (elements_ids es) then None else map_of m i)"
  by (induction es arbitrary: m i) (simp_all add: delete_conv' split_beta split: option.splits)

lemma union_ys_distinct:
  "distinct (map fst m) \<Longrightarrow> distinct (map fst (snd (union_ys es m)))"
  by (induction es arbitrary: m) (simp_all add: distinct_delete split_beta split: option.splits)

lemma union_ys_pairs:
  "(i, x) \<in> elements_pairs (fst (union_ys es m)) \<longleftrightarrow>
     (i, x) \<in> elements_pairs es
     \<or> (i \<in> set (elements_ids es) \<and> (\<exists>ind. map_of m i = Some ind \<and> x \<in> set (OrderedSet_values ind)))"
proof (induction es arbitrary: m)
  case Nil
  then show ?case by simp
next
  case (Cons e es)
  let ?i = "unit_id (el_unit e)"
  show ?case
  proof (cases "map_of m ?i")
    case None
    obtain r1 m1 where u: "union_ys es m = (r1, m1)" by (cases "union_ys es m")
    have ih: "(i, x) \<in> elements_pairs r1 \<longleftrightarrow>
     (i, x) \<in> elements_pairs es
     \<or> (i \<in> set (elements_ids es) \<and> (\<exists>ind. map_of m i = Some ind \<and> x \<in> set (OrderedSet_values ind)))"
      using Cons.IH[of m] u by simp
    have "fst (union_ys (e # es) m) = e # r1" using None u by simp
    then show ?thesis using ih None by (cases "i = ?i") (auto simp add: set_element_pairs)
  next
    case (Some ind)
    obtain r1 m1 where u: "union_ys es (AList.delete ?i m) = (r1, m1)"
      by (cases "union_ys es (AList.delete ?i m)")
    have ih: "(i, x) \<in> elements_pairs r1 \<longleftrightarrow>
     (i, x) \<in> elements_pairs es
     \<or> (i \<in> set (elements_ids es) \<and> i \<noteq> ?i \<and> (\<exists>ind. map_of m i = Some ind \<and> x \<in> set (OrderedSet_values ind)))"
      using Cons.IH[of "AList.delete ?i m"] u by (simp add: delete_conv')
    have "fst (union_ys (e # es) m) =
       \<lparr> el_unit = el_unit e, el_indices = OrderedSet_union ind (el_indices e) \<rparr> # r1"
      using Some u by simp
    then show ?thesis using ih Some
      by (cases "i = ?i") (auto simp add: set_element_pairs)
  qed
qed

lemma unitMap_get_id: "unitMap_get s i = Some u \<Longrightarrow> unit_id u = i"
  by (auto simp add: unitMap_get_def find_Some_iff)

lemma union_rest_props:
  "\<forall>i \<in> set (map fst m). unitMap_get s i \<noteq> None \<Longrightarrow>
   \<exists>r. union_rest s m = Inr r
      \<and> elements_ids r = map fst m
      \<and> list_all (\<lambda>e. unitMap_get s (unit_id (el_unit e)) = Some (el_unit e)) r
      \<and> (\<forall>i x. (i, x) \<in> elements_pairs r \<longleftrightarrow>
            (\<exists>ind. (i, ind) \<in> set m \<and> x \<in> set (OrderedSet_values ind)))"
proof (induction m)
  case Nil
  then show ?case by simp
next
  case (Cons p m)
  obtain i ind where p: "p = (i, ind)" by (cases p)
  from Cons.prems p obtain u where u: "unitMap_get s i = Some u" by auto
  from Cons.prems have "\<forall>i \<in> set (map fst m). unitMap_get s i \<noteq> None" by simp
  from Cons.IH[OF this] obtain r where r: "union_rest s m = Inr r" "elements_ids r = map fst m"
     "list_all (\<lambda>e. unitMap_get s (unit_id (el_unit e)) = Some (el_unit e)) r"
     "\<forall>i x. (i, x) \<in> elements_pairs r \<longleftrightarrow>
            (\<exists>ind. (i, ind) \<in> set m \<and> x \<in> set (OrderedSet_values ind))"
    by blast
  have id: "unit_id u = i" using u by (rule unitMap_get_id)
  let ?e = "\<lparr> el_unit = u, el_indices = ind \<rparr>"
  have a: "union_rest s (p # m) = Inr (?e # r)"
    using p u r(1) by simp
  have b: "elements_ids (?e # r) = map fst (p # m)"
    using p r(2) id by simp
  have c: "list_all (\<lambda>e. unitMap_get s (unit_id (el_unit e)) = Some (el_unit e)) (?e # r)"
    using r(3) u id by simp
  have d: "\<forall>j x. (j, x) \<in> elements_pairs (?e # r) \<longleftrightarrow>
            (\<exists>k. (j, k) \<in> set (p # m) \<and> x \<in> set (OrderedSet_values k))"
  proof (intro allI)
    fix j x
    have "(j, x) \<in> elements_pairs (?e # r) \<longleftrightarrow>
        (j = i \<and> x \<in> set (OrderedSet_values ind)) \<or> (j, x) \<in> elements_pairs r"
      using id by (simp add: set_element_pairs)
    also have "\<dots> \<longleftrightarrow> (j = i \<and> x \<in> set (OrderedSet_values ind))
        \<or> (\<exists>k. (j, k) \<in> set m \<and> x \<in> set (OrderedSet_values k))"
      using r(4) by simp
    also have "\<dots> \<longleftrightarrow> (\<exists>k. (j, k) \<in> set (p # m) \<and> x \<in> set (OrderedSet_values k))"
      unfolding p by auto
    finally show "(j, x) \<in> elements_pairs (?e # r) \<longleftrightarrow>
            (\<exists>k. (j, k) \<in> set (p # m) \<and> x \<in> set (OrderedSet_values k))" .
  qed
  from a b c d show ?case by blast
qed

lemma loci_over_unitMap:
  "loci_over s l \<Longrightarrow> i \<in> set (elements_ids (loci_elements l)) \<Longrightarrow> unitMap_get s i \<noteq> None"
  by (auto simp add: loci_over_def list_all_iff elements_ids_def)

lemma union_body_props:
  assumes xs: "loci_over s xs" and ys: "loci_over s ys"
  shows "\<exists>u. union_body xs ys = Inr u \<and> loci_over s u
           \<and> loci_unit_ids u = loci_unit_ids xs \<union> loci_unit_ids ys
           \<and> loci_pairs u = loci_pairs xs \<union> loci_pairs ys"
proof (cases "loci_elements xs = []")
  case True
  then show ?thesis using ys
    by (simp add: union_body_def loci_unit_ids_def loci_pairs_def)
next
  case False
  let ?m = "indices_map (loci_elements xs)"
  let ?ex = "loci_elements xs" and ?ey = "loci_elements ys"
  obtain r m' where u: "union_ys ?ey ?m = (r, m')"
    by (cases "union_ys ?ey ?m")
  have dx: "distinct (elements_ids ?ex)" using xs by (simp add: loci_over_def)
  have dy: "distinct (elements_ids ?ey)" using ys by (simp add: loci_over_def)
  have units_r: "map el_unit r = map el_unit ?ey"
    using union_ys_units[of ?ey ?m] u by simp
  have ids_r: "elements_ids r = elements_ids ?ey"
  proof -
    have "map unit_id (map el_unit r) = map unit_id (map el_unit ?ey)" using units_r by simp
    then show ?thesis by (simp add: elements_ids_def comp_def)
  qed
  have dm': "distinct (map fst m')"
    using union_ys_distinct[OF distinct_indices_map, of ?ey ?ex] u by simp
  have mo: "\<And>i. map_of m' i = (if i \<in> set (elements_ids ?ey) then None else map_of ?m i)"
    using union_ys_map_of[of ?ey ?m] u by simp
  have keys: "set (map fst m') = set (elements_ids ?ex) - set (elements_ids ?ey)"
  proof (rule set_eqI)
    fix i
    have "i \<in> set (map fst m') \<longleftrightarrow> map_of m' i \<noteq> None"
      by (simp add: map_of_eq_None_iff)
    also have "\<dots> \<longleftrightarrow> i \<notin> set (elements_ids ?ey) \<and> map_of ?m i \<noteq> None"
      by (simp add: mo)
    also have "\<dots> \<longleftrightarrow> i \<in> set (elements_ids ?ex) - set (elements_ids ?ey)"
      using map_of_indices_map_None[of ?ex i] by auto
    finally show "i \<in> set (map fst m') \<longleftrightarrow> i \<in> set (elements_ids ?ex) - set (elements_ids ?ey)" .
  qed
  have sx: "loci_structure xs = s" using xs by (simp add: loci_over_def)
  have "\<forall>i \<in> set (map fst m'). unitMap_get (loci_structure xs) i \<noteq> None"
    unfolding keys sx using loci_over_unitMap[OF xs] by blast
  from union_rest_props[OF this] obtain r' where
    r': "union_rest (loci_structure xs) m' = Inr r'"
        "elements_ids r' = map fst m'"
        "list_all (\<lambda>e. unitMap_get (loci_structure xs) (unit_id (el_unit e)) = Some (el_unit e)) r'"
        "\<forall>i x. (i, x) \<in> elements_pairs r' \<longleftrightarrow>
            (\<exists>ind. (i, ind) \<in> set m' \<and> x \<in> set (OrderedSet_values ind))"
    by blast
  let ?u = "\<lparr> loci_structure = loci_structure xs, loci_elements = r @ r' \<rparr>"
  have res: "union_body xs ys = Inr ?u"
    using False u r'(1) by (simp add: union_body_def)
  have all_r: "list_all (\<lambda>e. unitMap_get s (unit_id (el_unit e)) = Some (el_unit e)) r"
  proof -
    have "list_all (\<lambda>u. unitMap_get s (unit_id u) = Some u) (map el_unit ?ey)"
      using ys by (simp add: loci_over_def list_all_iff)
    then have "list_all (\<lambda>u. unitMap_get s (unit_id u) = Some u) (map el_unit r)"
      using units_r by simp
    then show ?thesis by (simp add: list_all_iff)
  qed
  have over: "loci_over s ?u"
  proof -
    have "distinct (elements_ids (r @ r'))"
      using ids_r r'(2) dy dm' keys by auto
    moreover have "list_all (\<lambda>e. unitMap_get s (unit_id (el_unit e)) = Some (el_unit e)) (r @ r')"
      using all_r r'(3) sx by simp
    ultimately show ?thesis using sx by (simp add: loci_over_def)
  qed
  have ids: "loci_unit_ids ?u = loci_unit_ids xs \<union> loci_unit_ids ys"
    using ids_r r'(2) keys by (auto simp add: loci_unit_ids_def)
  have pairs: "loci_pairs ?u = loci_pairs xs \<union> loci_pairs ys"
  proof (rule set_eqI)
    fix p :: "int \<times> nat"
    obtain i x where p: "p = (i, x)" by (cases p)
    have in_m': "\<And>k. (i, k) \<in> set m' \<longleftrightarrow> i \<notin> set (elements_ids ?ey) \<and> map_of ?m i = Some k"
    proof -
      fix k
      have "(i, k) \<in> set m' \<longleftrightarrow> map_of m' i = Some k" using dm' by simp
      then show "(i, k) \<in> set m' \<longleftrightarrow> i \<notin> set (elements_ids ?ey) \<and> map_of ?m i = Some k"
        by (simp add: mo)
    qed
    have in_x: "(i, x) \<in> elements_pairs ?ex \<longleftrightarrow>
        (\<exists>k. map_of ?m i = Some k \<and> x \<in> set (OrderedSet_values k))"
      using map_of_indices_map[OF dx] by (auto simp add: elements_pairs_iff)
    have "(i, x) \<in> loci_pairs ?u \<longleftrightarrow> (i, x) \<in> elements_pairs r \<or> (i, x) \<in> elements_pairs r'"
      by (simp add: loci_pairs_def)
    also have "\<dots> \<longleftrightarrow> (i, x) \<in> elements_pairs ?ey
        \<or> (i \<in> set (elements_ids ?ey) \<and> (\<exists>k. map_of ?m i = Some k \<and> x \<in> set (OrderedSet_values k)))
        \<or> (i \<notin> set (elements_ids ?ey) \<and> (\<exists>k. map_of ?m i = Some k \<and> x \<in> set (OrderedSet_values k)))"
      using union_ys_pairs[of i x ?ey ?m] u r'(4) in_m' by auto
    also have "\<dots> \<longleftrightarrow> (i, x) \<in> elements_pairs ?ey \<or> (i, x) \<in> elements_pairs ?ex"
      unfolding in_x by blast
    finally show "p \<in> loci_pairs ?u \<longleftrightarrow> p \<in> loci_pairs xs \<union> loci_pairs ys"
      unfolding p by (auto simp add: loci_pairs_def)
  qed
  from res over ids pairs show ?thesis by blast
qed

lemma Loci_union_props:
  assumes xs: "loci_over s xs" and ys: "loci_over s ys"
  shows "\<exists>u. Loci_union xs ys = Inr u \<and> loci_over s u
           \<and> loci_unit_ids u = loci_unit_ids xs \<union> loci_unit_ids ys
           \<and> loci_pairs u = loci_pairs xs \<union> loci_pairs ys"
proof (cases "length (loci_elements xs) > length (loci_elements ys)")
  case True
  from union_body_props[OF ys xs] True show ?thesis
    by (simp add: Loci_union_def Un_commute)
next
  case False
  from union_body_props[OF xs ys] False show ?thesis
    by (simp add: Loci_union_def)
qed

lemma subtract_xs_pairs:
  "(i, x) \<in> elements_pairs (subtract_xs m es) \<longleftrightarrow>
     (\<exists>e \<in> set es. unit_id (el_unit e) = i \<and> x \<in> set (OrderedSet_values (el_indices e))
        \<and> (\<forall>k. map_of m i = Some k \<longrightarrow> x \<notin> set (OrderedSet_values k)))"
proof (induction es)
  case Nil
  then show ?case by simp
next
  case (Cons e es)
  show ?case
  proof (cases "map_of m (unit_id (el_unit e))")
    case None
    then show ?thesis using Cons.IH by (auto simp add: set_element_pairs)
  next
    case (Some k)
    show ?thesis
    proof (cases "OrderedSet_size (OrderedSet_subtract (el_indices e) k) = 0")
      case True
      then have "set (OrderedSet_values (el_indices e)) - set (OrderedSet_values k) = {}"
        by (simp add: OrderedSet_size_0_iff)
      then show ?thesis using Cons.IH Some True by (auto simp add: Let_def)
    next
      case False
      then show ?thesis using Cons.IH Some by (auto simp add: Let_def set_element_pairs)
    qed
  qed
qed

lemma subtract_xs_ids:
  "i \<in> set (elements_ids (subtract_xs m es)) \<longleftrightarrow>
     (\<exists>e \<in> set es. unit_id (el_unit e) = i
        \<and> (\<forall>k. map_of m i = Some k \<longrightarrow>
              set (OrderedSet_values (el_indices e)) - set (OrderedSet_values k) \<noteq> {}))"
proof (induction es)
  case Nil
  then show ?case by simp
next
  case (Cons e es)
  show ?case
  proof (cases "map_of m (unit_id (el_unit e))")
    case None
    then show ?thesis using Cons.IH by auto
  next
    case (Some k)
    show ?thesis
    proof (cases "OrderedSet_size (OrderedSet_subtract (el_indices e) k) = 0")
      case True
      then have "set (OrderedSet_values (el_indices e)) - set (OrderedSet_values k) = {}"
        by (simp add: OrderedSet_size_0_iff)
      then show ?thesis using Cons.IH Some True by (auto simp add: Let_def)
    next
      case False
      then have "set (OrderedSet_values (el_indices e)) - set (OrderedSet_values k) \<noteq> {}"
        by (simp add: OrderedSet_size_0_iff)
      then show ?thesis using Cons.IH Some False by (auto simp add: Let_def)
    qed
  qed
qed

lemma loci_indices_distinct:
  assumes "distinct (elements_ids (loci_elements l))" and "e \<in> set (loci_elements l)"
  shows "loci_indices l (unit_id (el_unit e)) = set (OrderedSet_values (el_indices e))"
proof -
  have "\<And>e'. e' \<in> set (loci_elements l) \<Longrightarrow> unit_id (el_unit e') = unit_id (el_unit e) \<Longrightarrow> e' = e"
    using assms by (simp add: elements_ids_def distinct_map inj_on_def)
  then show ?thesis using assms(2)
    by (auto simp add: loci_indices_def loci_pairs_def elements_pairs_iff)
qed

lemma loci_indices_absent:
  "i \<notin> loci_unit_ids l \<Longrightarrow> loci_indices l i = {}"
  by (auto simp add: loci_indices_def loci_pairs_def elements_pairs_iff loci_unit_ids_def elements_ids_def)

lemma Loci_subtract_pairs:
  assumes "distinct (elements_ids (loci_elements ys))"
  shows "loci_pairs (Loci_subtract xs ys) = loci_pairs xs - loci_pairs ys"
proof (rule set_eqI)
  fix p :: "int \<times> nat"
  obtain i x where p: "p = (i, x)" by (cases p)
  have "(i, x) \<in> loci_pairs (Loci_subtract xs ys) \<longleftrightarrow>
      (\<exists>e \<in> set (loci_elements xs). unit_id (el_unit e) = i \<and> x \<in> set (OrderedSet_values (el_indices e))
        \<and> (\<forall>k. map_of (indices_map (loci_elements ys)) i = Some k \<longrightarrow> x \<notin> set (OrderedSet_values k)))"
    by (simp add: loci_pairs_def Loci_subtract_def subtract_xs_pairs)
  also have "\<dots> \<longleftrightarrow> (i, x) \<in> elements_pairs (loci_elements xs) \<and> (i, x) \<notin> elements_pairs (loci_elements ys)"
    unfolding map_of_indices_map[OF assms] elements_pairs_iff by blast
  finally show "p \<in> loci_pairs (Loci_subtract xs ys) \<longleftrightarrow> p \<in> loci_pairs xs - loci_pairs ys"
    unfolding p by (simp add: loci_pairs_def)
qed

lemma Loci_subtract_ids:
  assumes dx: "distinct (elements_ids (loci_elements xs))"
      and dy: "distinct (elements_ids (loci_elements ys))"
  shows "loci_unit_ids (Loci_subtract xs ys) =
     {i \<in> loci_unit_ids xs. i \<notin> loci_unit_ids ys \<or> loci_indices xs i - loci_indices ys i \<noteq> {}}"
proof (rule set_eqI)
  fix i
  let ?m = "indices_map (loci_elements ys)"
  have l: "i \<in> loci_unit_ids (Loci_subtract xs ys) \<longleftrightarrow>
     (\<exists>e \<in> set (loci_elements xs). unit_id (el_unit e) = i
        \<and> (\<forall>k. map_of ?m i = Some k \<longrightarrow>
              set (OrderedSet_values (el_indices e)) - set (OrderedSet_values k) \<noteq> {}))"
    by (simp add: loci_unit_ids_def Loci_subtract_def subtract_xs_ids)
  show "i \<in> loci_unit_ids (Loci_subtract xs ys) \<longleftrightarrow>
     i \<in> {i \<in> loci_unit_ids xs. i \<notin> loci_unit_ids ys \<or> loci_indices xs i - loci_indices ys i \<noteq> {}}"
  proof (cases "i \<in> loci_unit_ids xs")
    case False
    then show ?thesis unfolding l by (auto simp add: loci_unit_ids_def elements_ids_def)
  next
    case True
    then obtain e where e: "e \<in> set (loci_elements xs)" "unit_id (el_unit e) = i"
      by (auto simp add: loci_unit_ids_def elements_ids_def)
    have ex: "loci_indices xs i = set (OrderedSet_values (el_indices e))"
      using loci_indices_distinct[OF dx e(1)] e(2) by simp
    have uniq: "\<And>e'. e' \<in> set (loci_elements xs) \<Longrightarrow> unit_id (el_unit e') = i \<Longrightarrow> e' = e"
      using dx e by (simp add: elements_ids_def distinct_map inj_on_def)
    have l': "i \<in> loci_unit_ids (Loci_subtract xs ys) \<longleftrightarrow>
        (\<forall>k. map_of ?m i = Some k \<longrightarrow> loci_indices xs i - set (OrderedSet_values k) \<noteq> {})"
      unfolding l ex using e uniq by blast
    show ?thesis
    proof (cases "i \<in> loci_unit_ids ys")
      case False
      then have "map_of ?m i = None"
        by (simp add: map_of_indices_map_None loci_unit_ids_def)
      then show ?thesis using True False l' by simp
    next
      case iy: True
      then obtain f where f: "f \<in> set (loci_elements ys)" "unit_id (el_unit f) = i"
        by (auto simp add: loci_unit_ids_def elements_ids_def)
      have fy: "loci_indices ys i = set (OrderedSet_values (el_indices f))"
        using loci_indices_distinct[OF dy f(1)] f(2) by simp
      have uf: "\<And>e'. e' \<in> set (loci_elements ys) \<Longrightarrow> unit_id (el_unit e') = i \<Longrightarrow> e' = f"
        using dy f by (simp add: elements_ids_def distinct_map inj_on_def)
      have "\<And>k. map_of ?m i = Some k \<longleftrightarrow> k = el_indices f"
        unfolding map_of_indices_map[OF dy] using f uf by blast
      then show ?thesis using True iy l' fy by simp
    qed
  qed
qed

lemma loci_indices_union:
  "loci_pairs u = loci_pairs a \<union> loci_pairs b \<Longrightarrow>
   loci_indices u i = loci_indices a i \<union> loci_indices b i"
  by (auto simp add: loci_indices_def)

lemma ex_over1: "loci_over example_structure (example_loci [(example_unit1, Interval 0 2)])"
  by (simp add: loci_over_def example_defs elements_ids_def unitMap_get_def)

lemma ex_over2: "loci_over example_structure
     (example_loci [(example_unit1, SortedArray [3]), (example_unit2, SortedArray [0])])"
  by (simp add: loci_over_def example_defs elements_ids_def unitMap_get_def)

lemma ex_pairs1: "loci_pairs (example_loci [(example_unit1, Interval 0 2)]) = {(1, 0), (1, 1)}"
  by (simp add: loci_pairs_def elements_pairs_def element_pairs_def example_defs upt_rec)

lemma ex_pairs2: "loci_pairs (example_loci [(example_unit1, SortedArray [3]), (example_unit2, SortedArray [0])])
    = {(1, 3), (2, 0)}"
  by (simp add: loci_pairs_def elements_pairs_def element_pairs_def example_defs)

lemma ex_ids1: "loci_unit_ids (example_loci [(example_unit1, Interval 0 2)]) = {1}"
  by (simp add: loci_unit_ids_def elements_ids_def example_defs)

lemma ex_ids2: "loci_unit_ids (example_loci [(example_unit1, SortedArray [3]), (example_unit2, SortedArray [0])]) = {1, 2}"
  by (simp add: loci_unit_ids_def elements_ids_def example_defs)

subsection \<open>Intersection test with an empty operand\<close>

text \<open>
  C2 (as the code has it): \<open>areIntersecting(none(S), none(S))\<close> returns true. When at
  least one operand has an empty elements list, \<open>areIntersecting\<close> returns true exactly
  when both lists are empty, and false when exactly one is.
\<close>

theorem areIntersecting_empty_operand:
  "Loci_areIntersecting (Loci_none s) (Loci_none s)
   \<and> (loci_elements a = [] \<or> loci_elements b = [] \<longrightarrow>
        (Loci_areIntersecting a b \<longleftrightarrow> loci_elements a = [] \<and> loci_elements b = []))"
  by (auto simp add: Loci_areIntersecting_def areIntersecting_body_def Loci_none_def)

theorem areIntersecting_empty_operand_witness:
  "loci_elements (Loci_none example_structure) = []
   \<and> \<not> Loci_areIntersecting (Loci_none example_structure)
          (example_loci [(example_unit1, Interval 0 2)])
   \<and> \<not> Loci_areIntersecting (example_loci [(example_unit1, Interval 0 2)])
          (Loci_none example_structure)"
  using areIntersecting_empty_operand [of example_structure "Loci_none example_structure"
      "example_loci [(example_unit1, Interval 0 2)]"]
    areIntersecting_empty_operand [of example_structure
      "example_loci [(example_unit1, Interval 0 2)]" "Loci_none example_structure"]
  by (simp add: Loci_none_def example_loci_def)

text \<open>
  C2 (as stated) fails: two empty loci over the same structure are reported as
  intersecting.
\<close>

theorem areIntersecting_none_none_counterexample:
  "Loci_areIntersecting (Loci_none example_structure) (Loci_none example_structure) = True"
  by (simp add: Loci_areIntersecting_def areIntersecting_body_def Loci_none_def)

subsection \<open>Union: identity and commutativity\<close>

text \<open>
  C6: for a loci \<open>a\<close> over a structure \<open>S\<close>, \<open>union(a, none(S))\<close> is \<open>a\<close> itself; for
  loci \<open>a\<close> and \<open>b\<close> over the same structure, \<open>union(a, b)\<close> and \<open>union(b, a)\<close> both
  return a loci, with the same unit ids (those of \<open>a\<close> and of \<open>b\<close>) and, for every
  unit, the same index set (the union of the two), whatever the order of the elements.
\<close>

theorem union_identity_commutative:
  "(loci_structure a = s \<longrightarrow> Loci_union a (Loci_none s) = Inr a)
   \<and> (loci_over s a \<and> loci_over s b \<longrightarrow>
        (\<exists>u v. Loci_union a b = Inr u \<and> Loci_union b a = Inr v \<and> set_equal u v
           \<and> loci_unit_ids u = loci_unit_ids a \<union> loci_unit_ids b
           \<and> (\<forall>i. loci_indices u i = loci_indices a i \<union> loci_indices b i)))"
proof (intro conjI impI)
  assume s: "loci_structure a = s"
  show "Loci_union a (Loci_none s) = Inr a"
  proof (cases "loci_elements a")
    case Nil
    then have "a = Loci_none s" using s by (simp add: Loci_none_def)
    then show ?thesis by (simp add: Loci_union_def union_body_def Loci_none_def)
  next
    case (Cons e es)
    then show ?thesis by (simp add: Loci_union_def union_body_def Loci_none_def)
  qed
next
  assume ab: "loci_over s a \<and> loci_over s b"
  then have a: "loci_over s a" and b: "loci_over s b" by simp_all
  from Loci_union_props[OF a b] obtain u where
    u: "Loci_union a b = Inr u" "loci_unit_ids u = loci_unit_ids a \<union> loci_unit_ids b"
       "loci_pairs u = loci_pairs a \<union> loci_pairs b" by blast
  from Loci_union_props[OF b a] obtain v where
    v: "Loci_union b a = Inr v" "loci_unit_ids v = loci_unit_ids b \<union> loci_unit_ids a"
       "loci_pairs v = loci_pairs b \<union> loci_pairs a" by blast
  have "set_equal u v" using u v by (auto simp add: set_equal_def)
  moreover have "\<forall>i. loci_indices u i = loci_indices a i \<union> loci_indices b i"
    using loci_indices_union[OF u(3)] by simp
  ultimately show "\<exists>u v. Loci_union a b = Inr u \<and> Loci_union b a = Inr v \<and> set_equal u v
           \<and> loci_unit_ids u = loci_unit_ids a \<union> loci_unit_ids b
           \<and> (\<forall>i. loci_indices u i = loci_indices a i \<union> loci_indices b i)"
    using u v by blast
qed

theorem union_identity_commutative_witness:
  "loci_over example_structure (example_loci [(example_unit1, Interval 0 2)])
   \<and> loci_over example_structure
        (example_loci [(example_unit1, SortedArray [3]), (example_unit2, SortedArray [0])])
   \<and> Loci_union (example_loci [(example_unit1, Interval 0 2)]) (Loci_none example_structure)
        = Inr (example_loci [(example_unit1, Interval 0 2)])
   \<and> (\<exists>u v. Loci_union (example_loci [(example_unit1, Interval 0 2)])
               (example_loci [(example_unit1, SortedArray [3]), (example_unit2, SortedArray [0])]) = Inr u
           \<and> Loci_union (example_loci [(example_unit1, SortedArray [3]), (example_unit2, SortedArray [0])])
               (example_loci [(example_unit1, Interval 0 2)]) = Inr v
           \<and> set_equal u v)"
  using union_identity_commutative [of "example_loci [(example_unit1, Interval 0 2)]"
      example_structure
      "example_loci [(example_unit1, SortedArray [3]), (example_unit2, SortedArray [0])]"]
    ex_over1 ex_over2
  by (simp add: example_loci_def) blast

subsection \<open>Subtracting a disjoint operand from a union\<close>

text \<open>
  C5 (as the code has it): for loci \<open>a\<close> and \<open>b\<close> over the same structure,
  \<open>subtract(a, b)\<close> removes, per unit of \<open>a\<close>, the indices of the same unit of \<open>b\<close>, and
  drops a unit that \<open>b\<close> also has when no index remains. When \<open>a\<close> and \<open>b\<close> share no
  (unit id, index) pair, \<open>subtract(union(a, b), b)\<close> selects the same (unit id, index)
  pairs as \<open>a\<close>; its unit ids are those of \<open>a\<close> except the units with an empty index
  set that \<open>b\<close> has too, so that it is set-equal to \<open>a\<close> when every unit that \<open>a\<close>
  shares with \<open>b\<close> has a non-empty index set in \<open>a\<close>.
\<close>

theorem subtract_union_disjoint:
  "loci_over s a \<and> loci_over s b \<longrightarrow>
     loci_pairs (Loci_subtract a b) = loci_pairs a - loci_pairs b
   \<and> loci_unit_ids (Loci_subtract a b) =
        {i \<in> loci_unit_ids a. i \<notin> loci_unit_ids b \<or> loci_indices a i - loci_indices b i \<noteq> {}}
   \<and> (loci_pairs a \<inter> loci_pairs b = {} \<longrightarrow>
        (\<exists>u. Loci_union a b = Inr u
           \<and> loci_pairs (Loci_subtract u b) = loci_pairs a
           \<and> loci_unit_ids (Loci_subtract u b) =
                {i \<in> loci_unit_ids a. i \<notin> loci_unit_ids b \<or> loci_indices a i \<noteq> {}}
           \<and> ((\<forall>i \<in> loci_unit_ids a \<inter> loci_unit_ids b. loci_indices a i \<noteq> {})
                 \<longrightarrow> set_equal (Loci_subtract u b) a)))"
proof (intro impI)
  assume ab: "loci_over s a \<and> loci_over s b"
  then have a: "loci_over s a" and b: "loci_over s b" by simp_all
  have da: "distinct (elements_ids (loci_elements a))" using a by (simp add: loci_over_def)
  have db: "distinct (elements_ids (loci_elements b))" using b by (simp add: loci_over_def)
  have p1: "loci_pairs (Loci_subtract a b) = loci_pairs a - loci_pairs b"
    by (rule Loci_subtract_pairs[OF db])
  have p2: "loci_unit_ids (Loci_subtract a b) =
        {i \<in> loci_unit_ids a. i \<notin> loci_unit_ids b \<or> loci_indices a i - loci_indices b i \<noteq> {}}"
    by (rule Loci_subtract_ids[OF da db])
  have p3: "loci_pairs a \<inter> loci_pairs b = {} \<longrightarrow>
        (\<exists>u. Loci_union a b = Inr u
           \<and> loci_pairs (Loci_subtract u b) = loci_pairs a
           \<and> loci_unit_ids (Loci_subtract u b) =
                {i \<in> loci_unit_ids a. i \<notin> loci_unit_ids b \<or> loci_indices a i \<noteq> {}}
           \<and> ((\<forall>i \<in> loci_unit_ids a \<inter> loci_unit_ids b. loci_indices a i \<noteq> {})
                 \<longrightarrow> set_equal (Loci_subtract u b) a))"
  proof
    assume dis: "loci_pairs a \<inter> loci_pairs b = {}"
    from Loci_union_props[OF a b] obtain u where
      u: "Loci_union a b = Inr u" "loci_over s u"
         "loci_unit_ids u = loci_unit_ids a \<union> loci_unit_ids b"
         "loci_pairs u = loci_pairs a \<union> loci_pairs b" by blast
    have du: "distinct (elements_ids (loci_elements u))" using u(2) by (simp add: loci_over_def)
    have q1: "loci_pairs (Loci_subtract u b) = loci_pairs a"
      unfolding Loci_subtract_pairs[OF db] u(4) using dis by blast
    have ind: "\<And>i. loci_indices u i - loci_indices b i = loci_indices a i"
      using dis u(4) by (auto simp add: loci_indices_def)
    have q2: "loci_unit_ids (Loci_subtract u b) =
                {i \<in> loci_unit_ids a. i \<notin> loci_unit_ids b \<or> loci_indices a i \<noteq> {}}"
      unfolding Loci_subtract_ids[OF du db] ind u(3)
      using loci_indices_absent[of _ a] by blast
    have q3: "(\<forall>i \<in> loci_unit_ids a \<inter> loci_unit_ids b. loci_indices a i \<noteq> {})
                 \<longrightarrow> set_equal (Loci_subtract u b) a"
      unfolding set_equal_def q1 q2 by blast
    from u(1) q1 q2 q3 show "\<exists>u. Loci_union a b = Inr u
           \<and> loci_pairs (Loci_subtract u b) = loci_pairs a
           \<and> loci_unit_ids (Loci_subtract u b) =
                {i \<in> loci_unit_ids a. i \<notin> loci_unit_ids b \<or> loci_indices a i \<noteq> {}}
           \<and> ((\<forall>i \<in> loci_unit_ids a \<inter> loci_unit_ids b. loci_indices a i \<noteq> {})
                 \<longrightarrow> set_equal (Loci_subtract u b) a)" by blast
  qed
  from p1 p2 p3 show "loci_pairs (Loci_subtract a b) = loci_pairs a - loci_pairs b
   \<and> loci_unit_ids (Loci_subtract a b) =
        {i \<in> loci_unit_ids a. i \<notin> loci_unit_ids b \<or> loci_indices a i - loci_indices b i \<noteq> {}}
   \<and> (loci_pairs a \<inter> loci_pairs b = {} \<longrightarrow>
        (\<exists>u. Loci_union a b = Inr u
           \<and> loci_pairs (Loci_subtract u b) = loci_pairs a
           \<and> loci_unit_ids (Loci_subtract u b) =
                {i \<in> loci_unit_ids a. i \<notin> loci_unit_ids b \<or> loci_indices a i \<noteq> {}}
           \<and> ((\<forall>i \<in> loci_unit_ids a \<inter> loci_unit_ids b. loci_indices a i \<noteq> {})
                 \<longrightarrow> set_equal (Loci_subtract u b) a)))" by blast
qed

theorem subtract_union_disjoint_witness:
  "loci_over example_structure (example_loci [(example_unit1, Interval 0 2)])
   \<and> loci_over example_structure
        (example_loci [(example_unit1, SortedArray [3]), (example_unit2, SortedArray [0])])
   \<and> loci_pairs (example_loci [(example_unit1, Interval 0 2)])
        \<inter> loci_pairs (example_loci [(example_unit1, SortedArray [3]), (example_unit2, SortedArray [0])]) = {}
   \<and> loci_unit_ids (example_loci [(example_unit1, Interval 0 2)])
          \<inter> loci_unit_ids (example_loci [(example_unit1, SortedArray [3]), (example_unit2, SortedArray [0])])
        = {1}
   \<and> loci_indices (example_loci [(example_unit1, Interval 0 2)]) 1 \<noteq> {}
   \<and> (\<exists>u. Loci_union (example_loci [(example_unit1, Interval 0 2)])
            (example_loci [(example_unit1, SortedArray [3]), (example_unit2, SortedArray [0])]) = Inr u
         \<and> set_equal (Loci_subtract u
              (example_loci [(example_unit1, SortedArray [3]), (example_unit2, SortedArray [0])]))
              (example_loci [(example_unit1, Interval 0 2)]))"
proof -
  let ?a = "example_loci [(example_unit1, Interval 0 2)]"
  let ?b = "example_loci [(example_unit1, SortedArray [3]), (example_unit2, SortedArray [0])]"
  have dis: "loci_pairs ?a \<inter> loci_pairs ?b = {}" by (simp add: ex_pairs1 ex_pairs2)
  have ne: "\<forall>i \<in> loci_unit_ids ?a \<inter> loci_unit_ids ?b. loci_indices ?a i \<noteq> {}"
    by (auto simp add: ex_ids1 ex_ids2 loci_indices_def ex_pairs1)
  have ids: "loci_unit_ids ?a \<inter> loci_unit_ids ?b = {1}" by (simp add: ex_ids1 ex_ids2)
  have ne1: "loci_indices ?a 1 \<noteq> {}" by (auto simp add: loci_indices_def ex_pairs1)
  show ?thesis
    using subtract_union_disjoint [of example_structure ?a ?b] ex_over1 ex_over2 dis ne ids ne1
    by blast
qed

text \<open>
  C5 (as stated) fails: \<open>a\<close> holds unit 1 with an empty index set, \<open>b\<close> holds unit 1
  with index 0. They share no pair, the union is \<open>b\<close>, and subtracting \<open>b\<close> leaves no
  element at all, so that unit 1 of \<open>a\<close> is lost.
\<close>

theorem subtract_union_empty_unit_counterexample:
  "loci_over example_structure (example_loci [(example_unit1, SortedArray [])])
   \<and> loci_over example_structure (example_loci [(example_unit1, SortedArray [0])])
   \<and> loci_pairs (example_loci [(example_unit1, SortedArray [])])
        \<inter> loci_pairs (example_loci [(example_unit1, SortedArray [0])]) = {}
   \<and> Loci_union (example_loci [(example_unit1, SortedArray [])])
         (example_loci [(example_unit1, SortedArray [0])])
       = Inr (example_loci [(example_unit1, SortedArray [0])])
   \<and> Loci_subtract (example_loci [(example_unit1, SortedArray [0])])
         (example_loci [(example_unit1, SortedArray [0])]) = example_loci []
   \<and> \<not> set_equal (example_loci []) (example_loci [(example_unit1, SortedArray [])])"
  by (simp add: loci_over_def example_defs elements_ids_def unitMap_get_def
      loci_pairs_def elements_pairs_def element_pairs_def Loci_union_def union_body_def
      indices_map_def Loci_subtract_def OrderedSet_subtract_def set_equal_def loci_unit_ids_def)

subsection \<open>Runs of consecutive indices\<close>

lemma take_run_append: "fst (take_run prev xs) @ snd (take_run prev xs) = xs"
  by (induction xs arbitrary: prev) (simp_all add: split_beta)

lemma upt_cons: "x # [Suc x..<Suc x + n] = [x..<Suc x + n]"
  by (simp add: upt_conv_Cons del: upt_Suc)

lemma take_run_consecutive:
  "fst (take_run prev xs) = [Suc prev ..< Suc prev + length (fst (take_run prev xs))]"
proof (induction xs arbitrary: prev)
  case Nil
  then show ?case by simp
next
  case (Cons x xs)
  show ?case
  proof (cases "prev + 1 = x")
    case True
    define n where "n = length (fst (take_run x xs))"
    have f: "fst (take_run prev (x # xs)) = x # fst (take_run x xs)"
      using True by (simp add: split_beta)
    have "fst (take_run x xs) = [Suc x ..< Suc x + n]"
      unfolding n_def by (rule Cons.IH)
    then have "x # fst (take_run x xs) = [x ..< Suc x + n]"
      using upt_cons[of x n] by simp
    moreover have "Suc prev + length (fst (take_run prev (x # xs))) = Suc x + n"
      unfolding f n_def using True by simp
    ultimately show ?thesis unfolding f using True by (simp del: upt_Suc)
  next
    case False
    then show ?thesis by simp
  qed
qed

lemma run_consecutive:
  "x # fst (take_run x xs) = [x ..< x + length (x # fst (take_run x xs))]"
proof -
  define n where "n = length (fst (take_run x xs))"
  have "fst (take_run x xs) = [Suc x ..< Suc x + n]"
    unfolding n_def by (rule take_run_consecutive)
  then have "x # fst (take_run x xs) = [x ..< Suc x + n]"
    using upt_cons[of x n] by simp
  moreover have "x + length (x # fst (take_run x xs)) = Suc x + n"
    unfolding n_def by simp
  ultimately show ?thesis by (simp del: upt_Suc)
qed

lemma run_last: "last (x # fst (take_run x xs)) = x + length (fst (take_run x xs))"
proof -
  let ?r = "x # fst (take_run x xs)"
  have "last ?r = last [x ..< x + length ?r]" using run_consecutive[of x xs] by simp
  also have "\<dots> = x + length (fst (take_run x xs))" by simp
  finally show ?thesis .
qed

lemma take_run_maximal:
  "snd (take_run prev xs) = y # ys \<Longrightarrow> last (prev # fst (take_run prev xs)) + 1 \<noteq> y"
proof (induction xs arbitrary: prev)
  case Nil
  then show ?case by simp
next
  case (Cons x xs)
  show ?case
  proof (cases "prev + 1 = x")
    case True
    then have s: "snd (take_run prev (x # xs)) = snd (take_run x xs)"
      and f: "fst (take_run prev (x # xs)) = x # fst (take_run x xs)"
      by (simp_all add: split_beta)
    from Cons.prems s have "snd (take_run x xs) = y # ys" by simp
    from Cons.IH[OF this] show ?thesis using f by simp
  next
    case False
    then show ?thesis using Cons.prems by auto
  qed
qed

lemma maximal_runs_take_run:
  "maximal_runs (x # xs) = (x # fst (take_run x xs)) # maximal_runs (snd (take_run x xs))"
proof (induction xs arbitrary: x)
  case Nil
  then show ?case by simp
next
  case (Cons y ys)
  show ?case
  proof (cases "x + 1 = y")
    case True
    then show ?thesis using Cons.IH[of y] by (simp add: split_beta)
  next
    case False
    then show ?thesis by simp
  qed
qed

lemma encode_runs_maximal_runs:
  "encode_runs xs =
     (concat (map (\<lambda>r. [hd r, last r]) (filter (\<lambda>r. length r > 2) (maximal_runs xs))),
      concat (filter (\<lambda>r. \<not> length r > 2) (maximal_runs xs)))"
proof (induction xs rule: encode_runs.induct)
  case 1
  then show ?case by simp
next
  case (2 x xs)
  obtain r rest where t: "take_run x xs = (r, rest)" by (cases "take_run x xs")
  have ih: "encode_runs rest =
     (concat (map (\<lambda>r. [hd r, last r]) (filter (\<lambda>r. length r > 2) (maximal_runs rest))),
      concat (filter (\<lambda>r. \<not> length r > 2) (maximal_runs rest)))"
    using "2.IH"[of "(r, rest)" r rest] t by simp
  have m: "maximal_runs (x # xs) = (x # r) # maximal_runs rest"
    using maximal_runs_take_run[of x xs] t by simp
  show ?case
    unfolding m using t ih by (simp del: maximal_runs.simps)
qed

lemma maximal_runs_concat: "concat (maximal_runs xs) = xs"
proof (induction xs rule: encode_runs.induct)
  case 1
  then show ?case by simp
next
  case (2 x xs)
  obtain r rest where t: "take_run x xs = (r, rest)" by (cases "take_run x xs")
  have "concat (maximal_runs rest) = rest" using "2.IH"[of "(r, rest)" r rest] t by simp
  moreover have "r @ rest = xs" using take_run_append[of x xs] t by simp
  ultimately show ?case unfolding maximal_runs_take_run using t by simp
qed

lemma maximal_runs_consecutive:
  "r \<in> set (maximal_runs xs) \<Longrightarrow> r \<noteq> [] \<and> r = [hd r ..< hd r + length r]"
proof (induction xs rule: encode_runs.induct)
  case 1
  then show ?case by simp
next
  case (2 x xs)
  obtain r0 rest where t: "take_run x xs = (r0, rest)" by (cases "take_run x xs")
  from "2.prems" have "r = x # r0 \<or> r \<in> set (maximal_runs rest)"
    unfolding maximal_runs_take_run using t by simp
  then show ?case
  proof
    assume r: "r = x # r0"
    have e: "x # r0 = [x ..< x + length (x # r0)]" using run_consecutive[of x xs] t by simp
    have h: "hd r = x" using r by simp
    have c: "r = [hd r ..< hd r + length r]" unfolding h unfolding r by (rule e)
    have ne: "r \<noteq> []" using r by simp
    from ne c show ?thesis by (rule conjI)
  next
    assume "r \<in> set (maximal_runs rest)"
    then show ?thesis using "2.IH"[of "(r0, rest)" r0 rest] t by simp
  qed
qed

lemma maximal_runs_hd: "maximal_runs (x # xs) \<noteq> [] \<and> hd (hd (maximal_runs (x # xs))) = x"
  unfolding maximal_runs_take_run by simp

lemma maximal_runs_maximal:
  "Suc i < length (maximal_runs xs) \<Longrightarrow>
     last (maximal_runs xs ! i) + 1 \<noteq> hd (maximal_runs xs ! Suc i)"
proof (induction xs arbitrary: i rule: encode_runs.induct)
  case 1
  then show ?case by simp
next
  case (2 x xs)
  obtain r0 rest where t: "take_run x xs = (r0, rest)" by (cases "take_run x xs")
  have m: "maximal_runs (x # xs) = (x # r0) # maximal_runs rest"
    using maximal_runs_take_run[of x xs] t by simp
  show ?case
  proof (cases i)
    case 0
    from "2.prems" m have ne: "maximal_runs rest \<noteq> []" by auto
    then obtain y ys where rest: "rest = y # ys" by (cases rest) auto
    have "last (x # r0) + 1 \<noteq> y" using take_run_maximal[of x xs y ys] t rest by simp
    moreover have "hd (maximal_runs rest ! 0) = y"
      using maximal_runs_hd[of y ys] rest by (metis hd_conv_nth)
    ultimately show ?thesis unfolding m 0 by simp
  next
    case (Suc j)
    from "2.prems" m Suc have "Suc j < length (maximal_runs rest)" by simp
    from "2.IH"[of "(r0, rest)" r0 rest j, OF _ _ this] t
    show ?thesis unfolding m Suc by simp
  qed
qed

lemma consecutive_range:
  assumes "r \<noteq> []" and "r = [hd r ..< hd r + length r]"
  shows "[hd r ..< Suc (last r)] = r"
proof -
  have "last r = last [hd r ..< hd r + length r]" using assms(2) by simp
  also have "\<dots> = hd r + length r - 1" using assms(1) by (simp add: last_upt)
  finally have "Suc (last r) = hd r + length r" using assms(1) by simp
  then show ?thesis using assms(2) by simp
qed

lemma consecutive_hd_le_last:
  assumes "r \<noteq> []" and "r = [hd r ..< hd r + length r]"
  shows "hd r \<le> last r"
proof -
  have "last r = last [hd r ..< hd r + length r]" using assms(2) by simp
  also have "\<dots> = hd r + length r - 1" using assms(1) by (simp add: last_upt)
  finally have "last r = hd r + length r - 1" .
  moreover have "0 < length r" using assms(1) by simp
  ultimately show ?thesis by linarith
qed

lemma SortedRanges_values_runs:
  "\<forall>r \<in> set rs. r \<noteq> [] \<and> r = [hd r ..< hd r + length r] \<Longrightarrow>
   SortedRanges_values (concat (map (\<lambda>r. [hd r, last r]) rs)) = concat rs"
proof (induction rs)
  case Nil
  then show ?case by simp
next
  case (Cons r rs)
  then have r: "r \<noteq> []" "r = [hd r ..< hd r + length r]" by simp_all
  have e: "[hd r ..< Suc (last r)] = r" using r by (rule consecutive_range)
  have ih: "SortedRanges_values (concat (map (\<lambda>r. [hd r, last r]) rs)) = concat rs"
    using Cons by simp
  have "SortedRanges_values (concat (map (\<lambda>r. [hd r, last r]) (r # rs)))
      = [hd r ..< Suc (last r)] @ SortedRanges_values (concat (map (\<lambda>r. [hd r, last r]) rs))"
    by (simp del: upt_Suc upt_Suc_append)
  then show ?case unfolding e ih by simp
qed

lemma SortedRanges_size_runs:
  "\<forall>r \<in> set rs. r \<noteq> [] \<and> r = [hd r ..< hd r + length r] \<Longrightarrow>
   SortedRanges_size (concat (map (\<lambda>r. [hd r, last r]) rs)) = int (length (concat rs))"
proof (induction rs)
  case Nil
  then show ?case by simp
next
  case (Cons r rs)
  then have r: "r \<noteq> []" "r = [hd r ..< hd r + length r]" by simp_all
  have "[hd r ..< Suc (last r)] = r" using r by (rule consecutive_range)
  then have "length r = Suc (last r) - hd r" by (metis length_upt)
  moreover have "hd r \<le> last r" using r by (rule consecutive_hd_le_last)
  ultimately have "int (last r) - int (hd r) + 1 = int (length r)" by simp
  then show ?case using Cons by simp
qed

lemma mset_concat_filter:
  "mset (concat (filter P rs)) + mset (concat (filter (\<lambda>r. \<not> P r) rs)) = mset (concat rs)"
  by (induction rs) simp_all

lemma encode_runs_partition:
  "mset (SortedRanges_values (fst (encode_runs xs))) + mset (snd (encode_runs xs)) = mset xs"
proof -
  let ?long = "filter (\<lambda>r. length r > 2) (maximal_runs xs)"
  have "\<forall>r \<in> set ?long. r \<noteq> [] \<and> r = [hd r ..< hd r + length r]"
    using maximal_runs_consecutive[of _ xs] by simp
  then have "SortedRanges_values (concat (map (\<lambda>r. [hd r, last r]) ?long)) = concat ?long"
    by (rule SortedRanges_values_runs)
  then have "mset (SortedRanges_values (fst (encode_runs xs))) + mset (snd (encode_runs xs))
      = mset (concat (maximal_runs xs))"
    unfolding encode_runs_maximal_runs by (simp add: mset_concat_filter)
  then show ?thesis by (simp add: maximal_runs_concat)
qed

subsection \<open>The split into ranges and set\<close>

text \<open>
  C4 (as the code has it): the index array \<open>[0, ..., 12, 50, 51]\<close> is encoded with
  ranges \<open>[0, 12]\<close> and set \<open>[50, 51]\<close>, by \<open>fromLoci\<close> as a whole too, whatever the
  hash functions. For an index set kept as a sorted array, the ranges are the first
  and last index of every maximal run of more than 2 consecutive indices and the set
  holds the indices of the shorter runs, in order; the runs are non-empty, consecutive,
  they make up the array, and no run can be joined with the next. For an index set
  kept as an interval the cutoff is another one: a single index goes to the set, and
  an interval of 2 or more indices is one range. In both cases ranges and set together
  hold every index exactly as often as the index set does.
\<close>

theorem fromLoci_range_set_split:
  "encode_indices (SortedArray [0, 1, 2, 3, 4, 5, 6, 7, 8, 9, 10, 11, 12, 50, 51]) = ([0, 12], [50, 51])
   \<and> fromLoci hashFnv32a hash2
        (example_loci [(example_unit1, SortedArray [0, 1, 2, 3, 4, 5, 6, 7, 8, 9, 10, 11, 12, 50, 51])])
      = \<lparr> query_hash = 7,
          query_elements = [\<lparr> groupedUnits = [[1]], qe_set = [50, 51], qe_ranges = [0, 12] \<rparr>] \<rparr>
   \<and> encode_indices (SortedArray xs) =
        (concat (map (\<lambda>r. [hd r, last r]) (filter (\<lambda>r. length r > 2) (maximal_runs xs))),
         concat (filter (\<lambda>r. \<not> length r > 2) (maximal_runs xs)))
   \<and> concat (maximal_runs xs) = xs
   \<and> (\<forall>r \<in> set (maximal_runs xs). r \<noteq> [] \<and> r = [hd r ..< hd r + length r])
   \<and> (\<forall>i. Suc i < length (maximal_runs xs) \<longrightarrow>
          last (maximal_runs xs ! i) + 1 \<noteq> hd (maximal_runs xs ! Suc i))
   \<and> mset (SortedRanges_values (fst (encode_indices (SortedArray xs))))
        + mset (snd (encode_indices (SortedArray xs))) = mset xs
   \<and> (hi = lo + 1 \<longrightarrow> encode_indices (Interval lo hi) = ([], [lo]))
   \<and> (lo + 1 < hi \<longrightarrow> encode_indices (Interval lo hi) = ([lo, hi - 1], []))
   \<and> (lo < hi \<longrightarrow>
        mset (SortedRanges_values (fst (encode_indices (Interval lo hi))))
          + mset (snd (encode_indices (Interval lo hi))) = mset [lo..<hi])"
proof -
  have a: "encode_indices (SortedArray [0, 1, 2, 3, 4, 5, 6, 7, 8, 9, 10, 11, 12, 50, 51]) = ([0, 12], [50, 51])"
    by (simp add: encode_indices_def)
  have b: "fromLoci hashFnv32a hash2
        (example_loci [(example_unit1, SortedArray [0, 1, 2, 3, 4, 5, 6, 7, 8, 9, 10, 11, 12, 50, 51])])
      = \<lparr> query_hash = 7,
          query_elements = [\<lparr> groupedUnits = [[1]], qe_set = [50, 51], qe_ranges = [0, 12] \<rparr>] \<rparr>"
    by (simp add: fromLoci_def example_defs root_def encode_indices_def group_elements_def
        group_element_def add_unit_def query_element_def)
  have c: "encode_indices (SortedArray xs) =
        (concat (map (\<lambda>r. [hd r, last r]) (filter (\<lambda>r. length r > 2) (maximal_runs xs))),
         concat (filter (\<lambda>r. \<not> length r > 2) (maximal_runs xs)))"
    by (simp add: encode_indices_def encode_runs_maximal_runs)
  have d: "concat (maximal_runs xs) = xs" by (rule maximal_runs_concat)
  have e: "\<forall>r \<in> set (maximal_runs xs). r \<noteq> [] \<and> r = [hd r ..< hd r + length r]"
    using maximal_runs_consecutive[of _ xs] by blast
  have f: "\<forall>i. Suc i < length (maximal_runs xs) \<longrightarrow>
          last (maximal_runs xs ! i) + 1 \<noteq> hd (maximal_runs xs ! Suc i)"
    using maximal_runs_maximal[of _ xs] by blast
  have g: "mset (SortedRanges_values (fst (encode_indices (SortedArray xs))))
        + mset (snd (encode_indices (SortedArray xs))) = mset xs"
    using encode_runs_partition[of xs] by (simp add: encode_indices_def)
  have h: "hi = lo + 1 \<longrightarrow> encode_indices (Interval lo hi) = ([], [lo])"
    by (simp add: encode_indices_def)
  have i: "lo + 1 < hi \<longrightarrow> encode_indices (Interval lo hi) = ([lo, hi - 1], [])"
    by (auto simp add: encode_indices_def)
  have j: "lo < hi \<longrightarrow>
        mset (SortedRanges_values (fst (encode_indices (Interval lo hi))))
          + mset (snd (encode_indices (Interval lo hi))) = mset [lo..<hi]"
  proof
    assume l: "lo < hi"
    show "mset (SortedRanges_values (fst (encode_indices (Interval lo hi))))
          + mset (snd (encode_indices (Interval lo hi))) = mset [lo..<hi]"
    proof (cases "hi = lo + 1")
      case True
      then show ?thesis by (simp add: encode_indices_def)
    next
      case False
      then have "Suc (hi - 1) = hi" using l by simp
      then show ?thesis using False l by (simp add: encode_indices_def del: upt_Suc upt_Suc_append)
    qed
  qed
  from a b c d e f g h i j show ?thesis by blast
qed

theorem fromLoci_range_set_split_witness:
  "encode_indices (SortedArray [0, 1, 3, 4, 5, 7]) = ([3, 5], [0, 1, 7])
   \<and> maximal_runs [0, 1, 3, 4, 5, 7] = [[0, 1], [3, 4, 5], [7]]
   \<and> encode_indices (Interval 4 5) = ([], [4])
   \<and> encode_indices (Interval 4 9) = ([4, 8], [])"
  using fromLoci_range_set_split [of "\<lambda>xs. 0" "\<lambda>i j. 0" "[0, 1, 3, 4, 5, 7]" 5 4]
    fromLoci_range_set_split [of "\<lambda>xs. 0" "\<lambda>i j. 0" "[0, 1, 3, 4, 5, 7]" 9 4]
  by simp

text \<open>
  C4 (as stated) fails for an interval of two indices: \<open>{5, 6}\<close> is a maximal run of
  length 2, and it is emitted as the range \<open>[5, 6]\<close>, not as two set members.
\<close>

theorem fromLoci_interval_of_two_counterexample:
  "OrderedSet_values (Interval 5 7) = [5, 6]
   \<and> maximal_runs [5, 6] = [[5, 6]]
   \<and> encode_indices (Interval 5 7) = ([5, 6], [])"
  by (simp add: encode_indices_def upt_rec)

subsection \<open>A query replayed on a structure with another hash\<close>

text \<open>
  C1 (what the code does): the guard of \<open>toLoci\<close> and \<open>toStructure\<close> never raises.
  For a query with hash 5 and a parent structure with hash 7 the condition of the guard
  holds, and both functions go on and return the reconstructed loci and structure.
\<close>

theorem toLoci_hash_mismatch_returns:
  "hash_guard query parent = None
   \<and> hash_mismatch
        \<lparr> query_hash = 5,
          query_elements = [\<lparr> groupedUnits = [[1]], qe_set = [0], qe_ranges = [] \<rparr>] \<rparr>
        example_structure
   \<and> toLoci
        \<lparr> query_hash = 5,
          query_elements = [\<lparr> groupedUnits = [[1]], qe_set = [0], qe_ranges = [] \<rparr>] \<rparr>
        example_structure
      = Inr (example_loci [(example_unit1, SortedArray [0])])
   \<and> toStructure Structure_create getChild
        \<lparr> query_hash = 5,
          query_elements = [\<lparr> groupedUnits = [[1]], qe_set = [0], qe_ranges = [] \<rparr>] \<rparr>
        example_structure
      = Inr (Structure_create [getChild example_unit1 [0]] example_structure)"
  by (simp add: hash_guard_def hash_mismatch_def root_def toLoci_def toStructure_def
      toLoci_indices_def toStructure_indices_def Int32Array_new_def Int32Array_write_def
      elements_at_def unitMap_get_def example_defs)

subsection \<open>Keys of the missing-residue map\<close>

lemma digit_char_inj: "a < 10 \<Longrightarrow> b < 10 \<Longrightarrow> digit_char a = digit_char b \<Longrightarrow> a = b"
proof -
  assume a: "a < 10" and b: "b < 10" and e: "digit_char a = digit_char b"
  have d: "distinct ''0123456789''" by simp
  have "a < length ''0123456789''" "b < length ''0123456789''" using a b by simp_all
  then show "a = b" using e nth_eq_iff_index_eq[OF d] unfolding digit_char_def by blast
qed

lemma digit_char_mem: "d < 10 \<Longrightarrow> digit_char d \<in> set ''0123456789''"
  unfolding digit_char_def by (rule nth_mem) simp

lemma nat_toString_nonempty: "nat_toString n \<noteq> []"
  by (subst nat_toString.simps) simp

lemma nat_toString_chars:
  "c \<in> set (nat_toString n) \<Longrightarrow> c \<in> set ''0123456789''"
proof (induction n rule: nat_toString.induct)
  case (1 n)
  show ?case
  proof (cases "n < 10")
    case True
    then have "nat_toString n = [digit_char n]" by (subst nat_toString.simps) simp
    then have "c = digit_char n" using "1.prems" by simp
    then show ?thesis using True digit_char_mem[of n] by simp
  next
    case False
    then have "nat_toString n = nat_toString (n div 10) @ [digit_char (n mod 10)]"
      by (subst nat_toString.simps) simp
    then have "c \<in> set (nat_toString (n div 10)) \<or> c = digit_char (n mod 10)"
      using "1.prems" by auto
    then show ?thesis
    proof
      assume "c \<in> set (nat_toString (n div 10))"
      then show ?thesis using "1.IH" False by simp
    next
      assume "c = digit_char (n mod 10)"
      then show ?thesis using digit_char_mem[of "n mod 10"] by simp
    qed
  qed
qed

lemma nat_toString_inj: "nat_toString n = nat_toString m \<Longrightarrow> n = m"
proof (induction n arbitrary: m rule: nat_toString.induct)
  case (1 n)
  show ?case
  proof (cases "n < 10")
    case True
    then have n: "nat_toString n = [digit_char n]" by (subst nat_toString.simps) simp
    show ?thesis
    proof (cases "m < 10")
      case m: True
      then have "nat_toString m = [digit_char m]" by (subst nat_toString.simps) simp
      then show ?thesis using n "1.prems" True m digit_char_inj by simp
    next
      case m: False
      then have "nat_toString m = nat_toString (m div 10) @ [digit_char (m mod 10)]"
        by (subst nat_toString.simps) simp
      then have "length (nat_toString m) \<ge> 2"
        using nat_toString_nonempty[of "m div 10"] by (cases "nat_toString (m div 10)") simp_all
      then show ?thesis using n "1.prems" by simp
    qed
  next
    case False
    then have n: "nat_toString n = nat_toString (n div 10) @ [digit_char (n mod 10)]"
      by (subst nat_toString.simps) simp
    show ?thesis
    proof (cases "m < 10")
      case m: True
      then have "nat_toString m = [digit_char m]" by (subst nat_toString.simps) simp
      moreover have "length (nat_toString n) \<ge> 2"
        using n nat_toString_nonempty[of "n div 10"] by (cases "nat_toString (n div 10)") simp_all
      ultimately show ?thesis using "1.prems" by simp
    next
      case m: False
      then have "nat_toString m = nat_toString (m div 10) @ [digit_char (m mod 10)]"
        by (subst nat_toString.simps) simp
      then have e: "nat_toString (n div 10) = nat_toString (m div 10)"
        "digit_char (n mod 10) = digit_char (m mod 10)"
        using n "1.prems" by simp_all
      have "n div 10 = m div 10" using "1.IH"[OF False e(1)] .
      moreover have "n mod 10 = m mod 10" using digit_char_inj[OF _ _ e(2)] by simp
      ultimately show ?thesis by (metis div_mult_mod_eq)
    qed
  qed
qed

lemma number_toString_inj: "number_toString i = number_toString j \<Longrightarrow> i = j"
proof -
  assume e: "number_toString i = number_toString j"
  have nd: "\<And>n. hd (nat_toString n) \<noteq> CHR ''-''"
  proof
    fix n assume h: "hd (nat_toString n) = CHR ''-''"
    have "hd (nat_toString n) \<in> set (nat_toString n)" using nat_toString_nonempty by simp
    from nat_toString_chars[OF this] show False unfolding h by simp
  qed
  show "i = j"
  proof (cases "i < 0")
    case True
    show ?thesis
    proof (cases "j < 0")
      case j: True
      then have "nat_toString (nat (- i)) = nat_toString (nat (- j))"
        using e True by (simp add: number_toString_def)
      then have "nat (- i) = nat (- j)" by (rule nat_toString_inj)
      then show ?thesis using True j by simp
    next
      case j: False
      then have "CHR ''-'' # nat_toString (nat (- i)) = nat_toString (nat j)"
        using e True by (simp add: number_toString_def)
      then have "hd (nat_toString (nat j)) = CHR ''-''" by (metis list.sel(1))
      then show ?thesis using nd by simp
    qed
  next
    case False
    show ?thesis
    proof (cases "j < 0")
      case j: True
      then have "nat_toString (nat i) = CHR ''-'' # nat_toString (nat (- j))"
        using e False by (simp add: number_toString_def)
      then have "hd (nat_toString (nat i)) = CHR ''-''" by (metis list.sel(1))
      then show ?thesis using nd by simp
    next
      case j: False
      then have "nat_toString (nat i) = nat_toString (nat j)"
        using e False by (simp add: number_toString_def)
      then have "nat i = nat j" by (rule nat_toString_inj)
      then show ?thesis using False j by simp
    qed
  qed
qed

lemma number_toString_no_bar: "CHR ''|'' \<notin> set (number_toString i)"
proof
  assume a: "CHR ''|'' \<in> set (number_toString i)"
  then have "CHR ''|'' \<in> set (nat_toString (nat (- i))) \<or> CHR ''|'' \<in> set (nat_toString (nat i))"
    by (auto simp add: number_toString_def split: if_splits)
  then have "CHR ''|'' \<in> set ''0123456789''" using nat_toString_chars by blast
  then show False by simp
qed

lemma split_at_first:
  "c \<notin> set x \<Longrightarrow> c \<notin> set x' \<Longrightarrow> x @ c # y = x' @ c # y' \<Longrightarrow> x = x' \<and> y = y'"
proof (induction x arbitrary: x')
  case Nil
  then show ?case by (cases x') auto
next
  case (Cons a x)
  then show ?case by (cases x') auto
qed

lemma split_at_last:
  assumes "c \<notin> set x" and "c \<notin> set x'" and "y @ c # x = y' @ c # x'"
  shows "y = y' \<and> x = x'"
proof -
  have "rev x @ c # rev y = rev x' @ c # rev y'"
    using arg_cong[OF assms(3), of rev] by simp
  then have "rev x = rev x' \<and> rev y = rev y'"
    using assms(1,2) by (intro split_at_first) simp_all
  then show ?thesis by simp
qed

lemma getKey_inj:
  "getKey m a s = getKey m' a' s' \<Longrightarrow> m = m' \<and> a = a' \<and> s = s'"
proof -
  assume e: "getKey m a s = getKey m' a' s'"
  then have e1: "number_toString m @ CHR ''|'' # (a @ ''|'' @ number_toString s)
      = number_toString m' @ CHR ''|'' # (a' @ ''|'' @ number_toString s')"
    by (simp add: getKey_def)
  from split_at_first[OF number_toString_no_bar number_toString_no_bar e1]
  have m: "number_toString m = number_toString m'"
    and r: "a @ ''|'' @ number_toString s = a' @ ''|'' @ number_toString s'" by simp_all
  from r have "a @ CHR ''|'' # number_toString s = a' @ CHR ''|'' # number_toString s'" by simp
  from split_at_last[OF number_toString_no_bar number_toString_no_bar this]
  have "a = a'" "number_toString s = number_toString s'" by simp_all
  then show ?thesis using m number_toString_inj by blast
qed

lemma map_of_foldl_update:
  "map_of (foldl (\<lambda>m x. AList.update (k x) (v x) m) m0 xs) =
   map_of m0 ++ map_of (rev (map (\<lambda>x. (k x, v x)) xs))"
  by (induction xs arbitrary: m0) (auto simp add: update_conv' map_add_def fun_eq_iff split: option.splits)

lemma distinct_foldl_update:
  "distinct (map fst m0) \<Longrightarrow>
   distinct (map fst (foldl (\<lambda>m x. AList.update (k x) (v x) m) m0 xs))"
  by (induction xs arbitrary: m0) (auto simp add: distinct_update)

lemma map_of_map_find:
  "map_of (map (\<lambda>x. (k x, v x)) xs) key = map_option v (find (\<lambda>x. k x = key) xs)"
  by (induction xs) auto

lemma row_getKey_eq: "row_getKey r = getKey m a s \<longleftrightarrow> row_key r = (m, a, s)"
  using getKey_inj[of "col_PDB_model_num r" "col_label_asym_id r" "col_label_seq_id r" m a s]
  by (auto simp add: row_getKey_def row_key_def)

lemma map_of_missing_map:
  "map_of (missing_map c) (getKey m a s) =
     map_option row_flags (find (\<lambda>r. row_key r = (m, a, s)) (rev c))"
proof -
  have "map_of (missing_map c) = map_of (rev (map (\<lambda>r. (row_getKey r, row_flags r)) c))"
    unfolding missing_map_def row_getKey_def row_flags_def
    by (simp add: map_of_foldl_update)
  also have "rev (map (\<lambda>r. (row_getKey r, row_flags r)) c)
      = map (\<lambda>r. (row_getKey r, row_flags r)) (rev c)" by (simp add: rev_map)
  finally have "map_of (missing_map c) (getKey m a s) =
      map_option row_flags (find (\<lambda>r. row_getKey r = getKey m a s) (rev c))"
    by (simp add: map_of_map_find)
  then show ?thesis by (simp add: row_getKey_eq)
qed

lemma find_None_rev: "find P (rev xs) = None \<longleftrightarrow> (\<forall>x \<in> set xs. \<not> P x)"
  by (auto simp add: find_None_iff)

lemma length_missing_map: "length (missing_map c) = card (row_key ` set c)"
proof -
  let ?m = "missing_map c"
  have d: "distinct (map fst ?m)"
    unfolding missing_map_def by (rule distinct_foldl_update) simp
  have "dom (map_of ?m) = row_getKey ` set c"
    unfolding missing_map_def row_getKey_def
    by (simp add: map_of_foldl_update dom_map_of_conv_image_fst image_image)
  then have "set (map fst ?m) = row_getKey ` set c"
    by (simp add: dom_map_of_conv_image_fst)
  then have "length ?m = card (row_getKey ` set c)"
    using distinct_card[OF d] by simp
  also have "row_getKey ` set c = (\<lambda>(m, a, s). getKey m a s) ` (row_key ` set c)"
    by (simp add: image_image row_getKey_def row_key_def)
  also have "card \<dots> = card (row_key ` set c)"
  proof (rule card_image)
    show "inj_on (\<lambda>(m, a, s). getKey m a s) (row_key ` set c)"
      by (rule inj_onI) (auto dest: getKey_inj)
  qed
  finally show ?thesis .
qed

subsection \<open>Lookup of missing residues\<close>

text \<open>
  C9: for the object returned by \<open>getMissingResidues\<close> and every triple
  \<open>(model_num, asym_id, seq_id)\<close>: \<open>has\<close> is true exactly when the table has a row
  with that key triple; \<open>get\<close> returns the flags stored for the key, those of the last
  row with that triple, and \<open>undefined\<close> (\<open>None\<close>), without raising, when no row has
  it; \<open>size\<close> is the number of distinct key triples of the table.
\<close>

theorem getMissingResidues_lookup:
  "(mr_has (getMissingResidues c) m a s \<longleftrightarrow> (\<exists>r \<in> set c. row_key r = (m, a, s)))
   \<and> mr_get (getMissingResidues c) m a s =
        map_option row_flags (find (\<lambda>r. row_key r = (m, a, s)) (rev c))
   \<and> ((\<forall>r \<in> set c. row_key r \<noteq> (m, a, s)) \<longrightarrow> mr_get (getMissingResidues c) m a s = None)
   \<and> mr_size (getMissingResidues c) = card (row_key ` set c)"
proof -
  have g: "mr_get (getMissingResidues c) m a s =
        map_option row_flags (find (\<lambda>r. row_key r = (m, a, s)) (rev c))"
    by (simp add: getMissingResidues_def Let_def map_of_missing_map)
  have h: "mr_has (getMissingResidues c) m a s \<longleftrightarrow> (\<exists>r \<in> set c. row_key r = (m, a, s))"
  proof -
    have "mr_has (getMissingResidues c) m a s \<longleftrightarrow>
        find (\<lambda>r. row_key r = (m, a, s)) (rev c) \<noteq> None"
      by (simp add: getMissingResidues_def Let_def map_of_missing_map)
    then show ?thesis using find_None_rev[of "\<lambda>r. row_key r = (m, a, s)" c] by auto
  qed
  have n: "(\<forall>r \<in> set c. row_key r \<noteq> (m, a, s)) \<longrightarrow> mr_get (getMissingResidues c) m a s = None"
    unfolding g by (simp add: find_None_rev)
  have z: "mr_size (getMissingResidues c) = card (row_key ` set c)"
    by (simp add: getMissingResidues_def Let_def length_missing_map)
  from h g n z show ?thesis by blast
qed

theorem getMissingResidues_lookup_witness:
  "mr_has (getMissingResidues example_table) 1 ''A'' 5
   \<and> mr_get (getMissingResidues example_table) 1 ''A'' 5
        = Some \<lparr> polymer_flag = ''N'', occupancy_flag = 0 \<rparr>
   \<and> \<not> mr_has (getMissingResidues example_table) 2 ''A'' 5
   \<and> mr_get (getMissingResidues example_table) 2 ''A'' 5 = None
   \<and> mr_size (getMissingResidues example_table) = 2"
  using getMissingResidues_lookup [of example_table 1 "''A''" 5]
    getMissingResidues_lookup [of example_table 2 "''A''" 5]
  by (simp add: example_table_def row_key_def row_flags_def card_insert_if)

subsection \<open>Decoding a pattern\<close>

lemma ranges_wf_size:
  "ranges_wf r \<Longrightarrow> SortedRanges_size r = int (length (SortedRanges_values r))"
  by (induction r rule: ranges_wf.induct) (simp_all del: upt_Suc upt_Suc_append)

lemma write_all_fill:
  "length zs = length vs \<Longrightarrow>
   Int32Array_write_all (pre @ zs @ post) (int (length pre)) vs = pre @ vs @ post"
proof (induction vs arbitrary: pre zs)
  case Nil
  then show ?case by simp
next
  case (Cons v vs)
  then obtain z zs' where zs: "zs = z # zs'" "length zs' = length vs" by (cases zs) auto
  have w: "Int32Array_write (pre @ zs @ post) (int (length pre)) v = (pre @ [v]) @ zs' @ post"
    unfolding zs by (simp add: Int32Array_write_def list_update_append)
  have "Int32Array_write_all (pre @ zs @ post) (int (length pre)) (v # vs)
      = Int32Array_write_all ((pre @ [v]) @ zs' @ post) (int (length (pre @ [v]))) vs"
    using w by (simp add: add.commute)
  also have "\<dots> = (pre @ [v]) @ vs @ post" using zs(2) by (rule Cons.IH)
  finally show ?case by simp
qed

lemma write_all_new:
  "Int32Array_write_all (replicate (length vs) 0 @ post) 0 vs = vs @ post"
  using write_all_fill[of "replicate (length vs) 0" vs "[]" post] by simp

lemma case_not_pair:
  "\<not> (\<exists>lo hi. r = [lo, hi]) \<Longrightarrow> (case r of [lo, hi] \<Rightarrow> f lo hi | _ \<Rightarrow> b) = b"
  by (auto split: list.splits)

lemma toLoci_indices_wf:
  assumes "ranges_wf (qe_ranges e)"
  shows "\<exists>ind. toLoci_indices e = Inr ind
     \<and> set (OrderedSet_values ind) = set (SortedRanges_values (qe_ranges e)) \<union> set (qe_set e)"
proof (cases "qe_ranges e = []")
  case True
  then show ?thesis by (simp add: toLoci_indices_def)
next
  case nr: False
  let ?vs = "SortedRanges_values (qe_ranges e)"
  have sz: "SortedRanges_size (qe_ranges e) = int (length ?vs)"
    using assms by (rule ranges_wf_size)
  show ?thesis
  proof (cases "qe_set e = []")
    case True
    show ?thesis
    proof (cases "\<exists>lo hi. qe_ranges e = [lo, hi]")
      case True
      then obtain lo hi where r: "qe_ranges e = [lo, hi]" by blast
      then show ?thesis using \<open>qe_set e = []\<close>
        by (simp add: toLoci_indices_def Interval_ofRange_def del: upt_Suc upt_Suc_append)
    next
      case False
      have "Int32Array_write_all (replicate (length ?vs) 0) 0 ?vs = ?vs"
        using write_all_new[of ?vs "[]"] by simp
      then have "toLoci_indices e = Inr (SortedArray ?vs)"
        using nr True sz
        by (simp add: toLoci_indices_def Int32Array_new_def case_not_pair[OF False])
      then show ?thesis using True by simp
    qed
  next
    case ns: False
    let ?arr = "replicate (length ?vs) 0 @ replicate (length (qe_set e)) 0"
    have n: "Int32Array_new (int (length (qe_set e)) + SortedRanges_size (qe_ranges e)) = Inr ?arr"
      unfolding sz by (simp add: Int32Array_new_def nat_add_distrib replicate_add[symmetric] add.commute)
    have w1: "Int32Array_write_all ?arr 0 ?vs = ?vs @ replicate (length (qe_set e)) 0"
      by (rule write_all_new)
    have w2: "Int32Array_set (?vs @ replicate (length (qe_set e)) 0) (qe_set e)
         (SortedRanges_size (qe_ranges e)) = Inr (?vs @ qe_set e)"
      unfolding sz using write_all_fill[of "replicate (length (qe_set e)) 0" "qe_set e" ?vs "[]"]
      by (simp add: Int32Array_set_def)
    have "toLoci_indices e = Inr (SortedArray (sort (?vs @ qe_set e)))"
      using nr ns n w1 w2 by (simp add: toLoci_indices_def Let_def)
    then show ?thesis by auto
  qed
qed

subsection \<open>Encoding an index set\<close>

lemma ranges_wf_runs:
  "\<forall>r \<in> set rs. r \<noteq> [] \<and> r = [hd r ..< hd r + length r] \<Longrightarrow>
   ranges_wf (concat (map (\<lambda>r. [hd r, last r]) rs))"
proof (induction rs)
  case Nil
  then show ?case by simp
next
  case (Cons r rs)
  then have r: "r \<noteq> []" "r = [hd r ..< hd r + length r]" by simp_all
  have "hd r \<le> last r" using r by (rule consecutive_hd_le_last)
  then show ?case using Cons by simp
qed

lemma encode_indices_wf:
  assumes "OrderedSet_size ind \<noteq> 0"
  shows "ranges_wf (fst (encode_indices ind))"
proof (cases ind)
  case (Interval lo hi)
  then show ?thesis using assms by (auto simp add: encode_indices_def)
next
  case (SortedArray xs)
  have "\<forall>r \<in> set (filter (\<lambda>r. length r > 2) (maximal_runs xs)).
      r \<noteq> [] \<and> r = [hd r ..< hd r + length r]"
    using maximal_runs_consecutive[of _ xs] by simp
  then show ?thesis
    unfolding SortedArray by (simp add: encode_indices_def encode_runs_maximal_runs ranges_wf_runs)
qed

lemma encode_indices_values:
  assumes "OrderedSet_size ind \<noteq> 0"
  shows "set (SortedRanges_values (fst (encode_indices ind))) \<union> set (snd (encode_indices ind))
     = set (OrderedSet_values ind)"
proof (cases ind)
  case (Interval lo hi)
  show ?thesis
  proof (cases "hi - lo = 1")
    case True
    then have "hi = Suc lo" by simp
    then have "[lo..<hi] = [lo]" by simp
    then show ?thesis using True unfolding Interval by (simp add: encode_indices_def)
  next
    case False
    then have "Suc (hi - 1) = hi" using assms Interval by simp
    then show ?thesis using False unfolding Interval
      by (simp add: encode_indices_def del: upt_Suc upt_Suc_append)
  qed
next
  case (SortedArray xs)
  have "set_mset (mset (SortedRanges_values (fst (encode_runs xs))) + mset (snd (encode_runs xs)))
      = set xs"
    unfolding encode_runs_partition by simp
  then show ?thesis unfolding SortedArray by (simp add: encode_indices_def)
qed

lemma encode_elements_set:
  "set (encode_elements es) =
     (\<lambda>e. \<lparr> ee_unit = el_unit e, ee_set = snd (encode_indices (el_indices e)),
             ee_ranges = fst (encode_indices (el_indices e)) \<rparr>)
       ` {e \<in> set es. OrderedSet_size (el_indices e) \<noteq> 0}"
  by (induction es) (auto simp add: split_beta)

lemma set_update_distinct:
  "distinct (map fst al) \<Longrightarrow>
   set (AList.update k v al) = insert (k, v) {p \<in> set al. fst p \<noteq> k}"
  by (induction al) (auto simp add: image_iff)

lemma add_unit_distinct:
  "distinct (map fst gu) \<Longrightarrow> distinct (map fst (add_unit u gu))"
  by (simp add: add_unit_def distinct_update split: option.splits)

lemma add_unit_ids:
  assumes "distinct (map fst gu)"
  shows "(\<Union>p \<in> set (add_unit u gu). set (snd p)) = insert (unit_id u) (\<Union>p \<in> set gu. set (snd p))"
proof (cases "map_of gu (invariantId u)")
  case None
  then have "\<forall>p \<in> set gu. fst p \<noteq> invariantId u"
    by (metis map_of_eq_None_iff image_eqI)
  then have "{p \<in> set gu. fst p \<noteq> invariantId u} = set gu" by blast
  then show ?thesis using None assms by (simp add: add_unit_def set_update_distinct)
next
  case (Some ids)
  then have mem: "(invariantId u, ids) \<in> set gu" by (rule map_of_SomeD)
  have only: "\<And>b. (invariantId u, b) \<in> set gu \<Longrightarrow> b = ids"
    using assms mem by (metis eq_key_imp_eq_value)
  have upd: "set (add_unit u gu) =
      insert (invariantId u, ids @ [unit_id u]) {p \<in> set gu. fst p \<noteq> invariantId u}"
    using Some assms by (simp add: add_unit_def set_update_distinct)
  show ?thesis
  proof (rule set_eqI)
    fix x
    have "x \<in> (\<Union>p \<in> set (add_unit u gu). set (snd p)) \<longleftrightarrow>
        x \<in> set ids \<or> x = unit_id u
        \<or> (\<exists>a b. (a, b) \<in> set gu \<and> a \<noteq> invariantId u \<and> x \<in> set b)"
      unfolding upd by auto
    also have "\<dots> \<longleftrightarrow> x = unit_id u \<or> (\<exists>a b. (a, b) \<in> set gu \<and> x \<in> set b)"
      using mem only by blast
    also have "\<dots> \<longleftrightarrow> x \<in> insert (unit_id u) (\<Union>p \<in> set gu. set (snd p))"
      by force
    finally show "x \<in> (\<Union>p \<in> set (add_unit u gu). set (snd p)) \<longleftrightarrow>
        x \<in> insert (unit_id u) (\<Union>p \<in> set gu. set (snd p))" .
  qed
qed

subsection \<open>Grouping by pattern key\<close>

lemma group_ids_add_unit:
  "distinct (map fst (eg_groupedUnits g)) \<Longrightarrow>
   group_ids (g\<lparr> eg_groupedUnits := add_unit u (eg_groupedUnits g) \<rparr>) = insert (unit_id u) (group_ids g)"
  by (simp add: group_ids_def add_unit_ids)

lemma group_entries_split:
  assumes d: "distinct (map fst G)"
  shows "group_entries (AList.update k g G) =
     (\<lambda>i. (i, eg_ranges g, eg_set g)) ` group_ids g
       \<union> (\<Union>p \<in> {p \<in> set G. fst p \<noteq> k}. (\<lambda>i. (i, eg_ranges (snd p), eg_set (snd p))) ` group_ids (snd p))"
  unfolding group_entries_def set_update_distinct[OF d] by simp

lemma group_entries_member:
  assumes d: "distinct (map fst G)" and m: "map_of G k = Some g"
  shows "group_entries G =
     (\<lambda>i. (i, eg_ranges g, eg_set g)) ` group_ids g
       \<union> (\<Union>p \<in> {p \<in> set G. fst p \<noteq> k}. (\<lambda>i. (i, eg_ranges (snd p), eg_set (snd p))) ` group_ids (snd p))"
proof -
  have "AList.update k g G = G" using m by (rule update_triv)
  then show ?thesis using group_entries_split[OF d, of k g] by simp
qed

lemma group_entries_absent:
  assumes m: "map_of G k = None"
  shows "(\<Union>p \<in> {p \<in> set G. fst p \<noteq> k}. (\<lambda>i. (i, eg_ranges (snd p), eg_set (snd p))) ` group_ids (snd p))
     = group_entries G"
proof -
  have "\<forall>p \<in> set G. fst p \<noteq> k" using m by (metis map_of_eq_None_iff image_eqI)
  then have "{p \<in> set G. fst p \<noteq> k} = set G" by blast
  then show ?thesis by (simp add: group_entries_def)
qed

lemma groups_inv_update:
  assumes inv: "groups_inv key P G"
    and g: "distinct (map fst (eg_groupedUnits g))" "(eg_ranges g, eg_set g) \<in> P"
           "k = key (eg_ranges g) (eg_set g)"
  shows "groups_inv key P (AList.update k g G)"
proof -
  have d: "distinct (map fst G)" using inv by (simp add: groups_inv_def)
  have d': "distinct (map fst (AList.update k g G))" using d by (rule distinct_update)
  have mem: "\<And>p. p \<in> set (AList.update k g G) \<Longrightarrow> p = (k, g) \<or> p \<in> set G"
    unfolding set_update_distinct[OF d] by blast
  have "\<forall>p \<in> set (AList.update k g G).
           distinct (map fst (eg_groupedUnits (snd p)))
           \<and> (eg_ranges (snd p), eg_set (snd p)) \<in> P
           \<and> fst p = key (eg_ranges (snd p)) (eg_set (snd p))"
  proof
    fix p assume "p \<in> set (AList.update k g G)"
    then have "p = (k, g) \<or> p \<in> set G" by (rule mem)
    then show "distinct (map fst (eg_groupedUnits (snd p)))
           \<and> (eg_ranges (snd p), eg_set (snd p)) \<in> P
           \<and> fst p = key (eg_ranges (snd p)) (eg_set (snd p))"
    proof
      assume "p = (k, g)"
      then show ?thesis using g by simp
    next
      assume "p \<in> set G"
      then show ?thesis using inv unfolding groups_inv_def by blast
    qed
  qed
  then show ?thesis unfolding groups_inv_def using d' by blast
qed

lemma group_element_step:
  assumes inv: "groups_inv (pattern_key h1 h2) P G"
    and pat: "(ee_ranges e, ee_set e) \<in> P"
    and inj: "inj_on (\<lambda>(r, t). pattern_key h1 h2 r t) P"
  shows "groups_inv (pattern_key h1 h2) P (group_element h1 h2 G e)
     \<and> group_entries (group_element h1 h2 G e)
         = insert (unit_id (ee_unit e), ee_ranges e, ee_set e) (group_entries G)"
proof -
  let ?k = "pattern_key h1 h2 (ee_ranges e) (ee_set e)"
  have d: "distinct (map fst G)" using inv by (simp add: groups_inv_def)
  show ?thesis
  proof (cases "map_of G ?k")
    case None
    let ?g = "\<lparr> eg_groupedUnits = add_unit (ee_unit e) [], eg_set = ee_set e, eg_ranges = ee_ranges e \<rparr>"
    have ge: "group_element h1 h2 G e = AList.update ?k ?g G"
      using None by (simp add: group_element_def)
    have ids: "group_ids ?g = {unit_id (ee_unit e)}"
      by (simp add: group_ids_def add_unit_def)
    have i1: "groups_inv (pattern_key h1 h2) P (AList.update ?k ?g G)"
      using inv pat by (intro groups_inv_update) (simp_all add: add_unit_def)
    have i2: "group_entries (AList.update ?k ?g G)
        = insert (unit_id (ee_unit e), ee_ranges e, ee_set e) (group_entries G)"
      unfolding group_entries_split[OF d] group_entries_absent[OF None] ids by simp
    show ?thesis unfolding ge using i1 i2 by simp
  next
    case (Some g)
    then have mem: "(?k, g) \<in> set G" by (rule map_of_SomeD)
    have gi: "distinct (map fst (eg_groupedUnits g))" "(eg_ranges g, eg_set g) \<in> P"
      "?k = pattern_key h1 h2 (eg_ranges g) (eg_set g)"
      using inv mem by (auto simp add: groups_inv_def)
    have "(\<lambda>(r, t). pattern_key h1 h2 r t) (eg_ranges g, eg_set g)
        = (\<lambda>(r, t). pattern_key h1 h2 r t) (ee_ranges e, ee_set e)"
      using gi(3) by simp
    from inj_onD[OF inj this gi(2) pat]
    have same: "eg_ranges g = ee_ranges e" "eg_set g = ee_set e" by simp_all
    let ?g = "g\<lparr> eg_groupedUnits := add_unit (ee_unit e) (eg_groupedUnits g) \<rparr>"
    have ge: "group_element h1 h2 G e = AList.update ?k ?g G"
      using Some by (simp add: group_element_def)
    have ids: "group_ids ?g = insert (unit_id (ee_unit e)) (group_ids g)"
      using gi(1) by (rule group_ids_add_unit)
    have i1: "groups_inv (pattern_key h1 h2) P (AList.update ?k ?g G)"
      using inv gi by (intro groups_inv_update) (simp_all add: add_unit_distinct)
    have i2: "group_entries (AList.update ?k ?g G)
        = insert (unit_id (ee_unit e), ee_ranges e, ee_set e) (group_entries G)"
      unfolding group_entries_split[OF d] group_entries_member[OF d Some] ids
      by (simp add: same)
    show ?thesis unfolding ge using i1 i2 by simp
  qed
qed

lemma group_elements_fold:
  assumes "groups_inv (pattern_key h1 h2) P G"
    and "\<forall>e \<in> set E. (ee_ranges e, ee_set e) \<in> P"
    and "inj_on (\<lambda>(r, t). pattern_key h1 h2 r t) P"
  shows "groups_inv (pattern_key h1 h2) P (foldl (group_element h1 h2) G E)
     \<and> group_entries (foldl (group_element h1 h2) G E) = encoded_entries E \<union> group_entries G"
  using assms
proof (induction E arbitrary: G)
  case Nil
  then show ?case by (simp add: encoded_entries_def)
next
  case (Cons e E)
  have pe: "(ee_ranges e, ee_set e) \<in> P" using Cons.prems(2) by simp
  note st = group_element_step[OF Cons.prems(1) pe Cons.prems(3)]
  have rest: "\<forall>e \<in> set E. (ee_ranges e, ee_set e) \<in> P" using Cons.prems(2) by simp
  note ih = Cons.IH[OF conjunct1[OF st] rest Cons.prems(3)]
  have "group_entries (foldl (group_element h1 h2) G (e # E))
      = encoded_entries E \<union> insert (unit_id (ee_unit e), ee_ranges e, ee_set e) (group_entries G)"
    using ih st by simp
  also have "\<dots> = encoded_entries (e # E) \<union> group_entries G"
    by (simp add: encoded_entries_def)
  finally show ?case using ih by simp
qed

lemma group_elements_entries:
  assumes "inj_on (\<lambda>(r, t). pattern_key h1 h2 r t) ((\<lambda>e. (ee_ranges e, ee_set e)) ` set E)"
  shows "group_entries (group_elements h1 h2 E) = encoded_entries E"
proof -
  have "groups_inv (pattern_key h1 h2) ((\<lambda>e. (ee_ranges e, ee_set e)) ` set E) []"
    by (simp add: groups_inv_def)
  from group_elements_fold[OF this _ assms, of E] show ?thesis
    by (simp add: group_elements_def group_entries_def)
qed

lemma query_element_ids:
  "(\<Union>g \<in> set (groupedUnits (query_element e)). set g) = group_ids e"
  by (auto simp add: query_element_def group_ids_def split_beta)

lemma query_entries_groups:
  "query_entries (map (\<lambda>(key, e). query_element e) G) = group_entries G"
proof -
  have "\<And>p. p \<in> set G \<Longrightarrow>
      (\<lambda>i. (i, qe_ranges (query_element (snd p)), qe_set (query_element (snd p))))
         ` (\<Union>g \<in> set (groupedUnits (query_element (snd p))). set g)
      = (\<lambda>i. (i, eg_ranges (snd p), eg_set (snd p))) ` group_ids (snd p)"
    unfolding query_element_ids by (simp add: query_element_def)
  then show ?thesis
    by (simp add: query_entries_def group_entries_def split_beta)
qed

subsection \<open>The elements rebuilt by toLoci\<close>

lemma getUnitsFromIds_set:
  "u \<in> set (getUnitsFromIds g s) \<longleftrightarrow> (\<exists>i \<in> set g. unitMap_get s i = Some u)"
  by (induction g) (auto split: option.splits)

lemma getUnitsFromIds_ids:
  "(\<exists>u \<in> set (getUnitsFromIds g s). unit_id u = i) \<longleftrightarrow> (i \<in> set g \<and> unitMap_get s i \<noteq> None)"
proof
  assume "\<exists>u \<in> set (getUnitsFromIds g s). unit_id u = i"
  then obtain u j where "j \<in> set g" "unitMap_get s j = Some u" "unit_id u = i"
    using getUnitsFromIds_set[of _ g s] by blast
  then show "i \<in> set g \<and> unitMap_get s i \<noteq> None"
    using unitMap_get_id[of s j u] by auto
next
  assume a: "i \<in> set g \<and> unitMap_get s i \<noteq> None"
  then obtain u where u: "unitMap_get s i = Some u" by auto
  then have "unit_id u = i" by (rule unitMap_get_id)
  then show "\<exists>u \<in> set (getUnitsFromIds g s). unit_id u = i"
    using getUnitsFromIds_set[of u g s] a u by blast
qed

lemma toLoci_groups_ok:
  "toLoci_indices e = Inr ind \<Longrightarrow>
   toLoci_groups e gs parent =
     Inr (concat (map (\<lambda>g. map (\<lambda>u. \<lparr> el_unit = u, el_indices = ind \<rparr>) (getUnitsFromIds g parent)) gs))"
  by (induction gs) (simp_all add: Let_def)

lemma group_elements_ids:
  "i \<in> set (elements_ids
       (concat (map (\<lambda>g. map (\<lambda>u. \<lparr> el_unit = u, el_indices = ind \<rparr>) (getUnitsFromIds g parent)) gs)))
   \<longleftrightarrow> (\<exists>g \<in> set gs. i \<in> set g \<and> unitMap_get parent i \<noteq> None)"
proof -
  have "i \<in> set (elements_ids
       (concat (map (\<lambda>g. map (\<lambda>u. \<lparr> el_unit = u, el_indices = ind \<rparr>) (getUnitsFromIds g parent)) gs)))
     \<longleftrightarrow> (\<exists>g \<in> set gs. \<exists>u \<in> set (getUnitsFromIds g parent). unit_id u = i)"
    by (induction gs) (auto simp add: elements_ids_def)
  then show ?thesis unfolding getUnitsFromIds_ids .
qed

lemma group_elements_pairs:
  "(i, x) \<in> elements_pairs
       (concat (map (\<lambda>g. map (\<lambda>u. \<lparr> el_unit = u, el_indices = ind \<rparr>) (getUnitsFromIds g parent)) gs))
   \<longleftrightarrow> (\<exists>g \<in> set gs. i \<in> set g \<and> unitMap_get parent i \<noteq> None) \<and> x \<in> set (OrderedSet_values ind)"
proof -
  have "(i, x) \<in> elements_pairs
       (concat (map (\<lambda>g. map (\<lambda>u. \<lparr> el_unit = u, el_indices = ind \<rparr>) (getUnitsFromIds g parent)) gs))
     \<longleftrightarrow> (\<exists>g \<in> set gs. \<exists>u \<in> set (getUnitsFromIds g parent). unit_id u = i)
          \<and> x \<in> set (OrderedSet_values ind)"
    unfolding elements_pairs_iff by auto
  then show ?thesis unfolding getUnitsFromIds_ids .
qed

lemma query_entries_Cons:
  "query_entries (e # Q) =
     (\<lambda>i. (i, qe_ranges e, qe_set e)) ` (\<Union>g \<in> set (groupedUnits e). set g) \<union> query_entries Q"
  by (simp add: query_entries_def)

lemma toLoci_elements_ok:
  "\<forall>e \<in> set Q. ranges_wf (qe_ranges e) \<Longrightarrow>
   \<exists>els. toLoci_elements Q parent = Inr els
     \<and> (\<forall>i. i \<in> set (elements_ids els) \<longleftrightarrow>
            (\<exists>r t. (i, r, t) \<in> query_entries Q \<and> unitMap_get parent i \<noteq> None))
     \<and> (\<forall>i x. (i, x) \<in> elements_pairs els \<longleftrightarrow>
            (\<exists>r t. (i, r, t) \<in> query_entries Q \<and> unitMap_get parent i \<noteq> None
                \<and> x \<in> set (SortedRanges_values r) \<union> set t))"
proof (induction Q)
  case Nil
  then show ?case by (simp add: query_entries_def)
next
  case (Cons e Q)
  from Cons.prems have wf: "ranges_wf (qe_ranges e)" by simp
  from toLoci_indices_wf[OF wf] obtain ind where
    ind: "toLoci_indices e = Inr ind"
         "set (OrderedSet_values ind) = set (SortedRanges_values (qe_ranges e)) \<union> set (qe_set e)"
    by blast
  let ?h = "concat (map (\<lambda>g. map (\<lambda>u. \<lparr> el_unit = u, el_indices = ind \<rparr>) (getUnitsFromIds g parent))
       (groupedUnits e))"
  have hd: "toLoci_groups e (groupedUnits e) parent = Inr ?h"
    using ind(1) by (rule toLoci_groups_ok)
  from Cons.prems have "\<forall>e \<in> set Q. ranges_wf (qe_ranges e)" by simp
  from Cons.IH[OF this] obtain els where
    els: "toLoci_elements Q parent = Inr els"
         "\<forall>i. i \<in> set (elements_ids els) \<longleftrightarrow>
            (\<exists>r t. (i, r, t) \<in> query_entries Q \<and> unitMap_get parent i \<noteq> None)"
         "\<forall>i x. (i, x) \<in> elements_pairs els \<longleftrightarrow>
            (\<exists>r t. (i, r, t) \<in> query_entries Q \<and> unitMap_get parent i \<noteq> None
                \<and> x \<in> set (SortedRanges_values r) \<union> set t)"
    by blast
  have res: "toLoci_elements (e # Q) parent = Inr (?h @ els)"
    using hd els(1) by simp
  have ids: "\<forall>i. i \<in> set (elements_ids (?h @ els)) \<longleftrightarrow>
            (\<exists>r t. (i, r, t) \<in> query_entries (e # Q) \<and> unitMap_get parent i \<noteq> None)"
  proof
    fix i
    have "i \<in> set (elements_ids (?h @ els)) \<longleftrightarrow>
        (\<exists>g \<in> set (groupedUnits e). i \<in> set g \<and> unitMap_get parent i \<noteq> None)
        \<or> (\<exists>r t. (i, r, t) \<in> query_entries Q \<and> unitMap_get parent i \<noteq> None)"
      using group_elements_ids[of i ind parent "groupedUnits e"] els(2) by simp
    also have "\<dots> \<longleftrightarrow> (\<exists>r t. (i, r, t) \<in> query_entries (e # Q) \<and> unitMap_get parent i \<noteq> None)"
      unfolding query_entries_Cons by blast
    finally show "i \<in> set (elements_ids (?h @ els)) \<longleftrightarrow>
            (\<exists>r t. (i, r, t) \<in> query_entries (e # Q) \<and> unitMap_get parent i \<noteq> None)" .
  qed
  have pairs: "\<forall>i x. (i, x) \<in> elements_pairs (?h @ els) \<longleftrightarrow>
            (\<exists>r t. (i, r, t) \<in> query_entries (e # Q) \<and> unitMap_get parent i \<noteq> None
                \<and> x \<in> set (SortedRanges_values r) \<union> set t)"
  proof (intro allI)
    fix i x
    have "(i, x) \<in> elements_pairs (?h @ els) \<longleftrightarrow>
        ((\<exists>g \<in> set (groupedUnits e). i \<in> set g \<and> unitMap_get parent i \<noteq> None)
           \<and> x \<in> set (SortedRanges_values (qe_ranges e)) \<union> set (qe_set e))
        \<or> (\<exists>r t. (i, r, t) \<in> query_entries Q \<and> unitMap_get parent i \<noteq> None
                \<and> x \<in> set (SortedRanges_values r) \<union> set t)"
      using group_elements_pairs[of i x ind parent "groupedUnits e"] els(3) ind(2) by simp
    also have "\<dots> \<longleftrightarrow> (\<exists>r t. (i, r, t) \<in> query_entries (e # Q) \<and> unitMap_get parent i \<noteq> None
                \<and> x \<in> set (SortedRanges_values r) \<union> set t)"
      unfolding query_entries_Cons by blast
    finally show "(i, x) \<in> elements_pairs (?h @ els) \<longleftrightarrow>
            (\<exists>r t. (i, r, t) \<in> query_entries (e # Q) \<and> unitMap_get parent i \<noteq> None
                \<and> x \<in> set (SortedRanges_values r) \<union> set t)" .
  qed
  from res ids pairs show ?case by blast
qed

lemma group_elements_inv:
  assumes "inj_on (\<lambda>(r, t). pattern_key h1 h2 r t) ((\<lambda>e. (ee_ranges e, ee_set e)) ` set E)"
  shows "groups_inv (pattern_key h1 h2) ((\<lambda>e. (ee_ranges e, ee_set e)) ` set E)
     (group_elements h1 h2 E)"
proof -
  have "groups_inv (pattern_key h1 h2) ((\<lambda>e. (ee_ranges e, ee_set e)) ` set E) []"
    by (simp add: groups_inv_def)
  from group_elements_fold[OF this _ assms, of E] show ?thesis
    by (simp add: group_elements_def)
qed

lemma encoded_patterns:
  "(\<lambda>e. (ee_ranges e, ee_set e)) ` set (encode_elements es)
     = encode_indices ` el_indices ` {e \<in> set es. OrderedSet_size (el_indices e) \<noteq> 0}"
  unfolding encode_elements_set by (simp add: image_image)

lemma encoded_entries_elements:
  "encoded_entries (encode_elements es) =
     (\<lambda>e. (unit_id (el_unit e), encode_indices (el_indices e)))
        ` {e \<in> set es. OrderedSet_size (el_indices e) \<noteq> 0}"
  unfolding encoded_entries_def encode_elements_set by (simp add: image_image)

lemma Collect_set_filter: "{e \<in> set es. P e} = set (filter P es)"
  by auto

subsection \<open>Round trip through a query\<close>

text \<open>
  C3 (as the code has it): let \<open>l\<close> be a loci over the structure \<open>s\<close>, and let the
  hash functions give different keys to the different (ranges, set) patterns of \<open>l\<close>.
  Then \<open>toLoci(fromLoci(l), s)\<close> returns a loci that selects the same
  (unit id, index) pairs as \<open>l\<close>, whatever the order of the elements and the
  representation of the index sets. Its unit ids are those of the elements of \<open>l\<close>
  with a non-empty index set, since \<open>fromLoci\<close> skips an element without indices; it
  is set-equal to \<open>l\<close> when no element of \<open>l\<close> is empty.
\<close>

theorem query_round_trip:
  "loci_over s l
   \<and> inj_on (\<lambda>(r, t). pattern_key hashFnv32a hash2 r t)
        (encode_indices ` el_indices ` {e \<in> set (loci_elements l). OrderedSet_size (el_indices e) \<noteq> 0})
   \<longrightarrow>
   (\<exists>l'. toLoci (fromLoci hashFnv32a hash2 l) s = Inr l'
      \<and> loci_pairs l' = loci_pairs l
      \<and> loci_unit_ids l' =
          (\<lambda>e. unit_id (el_unit e)) ` {e \<in> set (loci_elements l). OrderedSet_size (el_indices e) \<noteq> 0}
      \<and> ((\<forall>e \<in> set (loci_elements l). OrderedSet_size (el_indices e) \<noteq> 0) \<longrightarrow> set_equal l' l))"
proof
  assume a: "loci_over s l
   \<and> inj_on (\<lambda>(r, t). pattern_key hashFnv32a hash2 r t)
        (encode_indices ` el_indices ` {e \<in> set (loci_elements l). OrderedSet_size (el_indices e) \<noteq> 0})"
  let ?es = "loci_elements l"
  let ?ne = "{e \<in> set ?es. OrderedSet_size (el_indices e) \<noteq> 0}"
  let ?E = "encode_elements ?es"
  let ?G = "group_elements hashFnv32a hash2 ?E"
  let ?Q = "map (\<lambda>(key, e). query_element e) ?G"
  let ?P = "(\<lambda>e. (ee_ranges e, ee_set e)) ` set ?E"
  from a have over: "loci_over s l" by simp
  from a have inj: "inj_on (\<lambda>(r, t). pattern_key hashFnv32a hash2 r t) ?P"
    unfolding encoded_patterns by simp
  have q: "query_elements (fromLoci hashFnv32a hash2 l) = ?Q" by (simp add: fromLoci_def)
  have entries: "query_entries ?Q =
      (\<lambda>e. (unit_id (el_unit e), encode_indices (el_indices e))) ` ?ne"
    unfolding query_entries_groups group_elements_entries[OF inj] encoded_entries_elements ..
  have inv: "groups_inv (pattern_key hashFnv32a hash2) ?P ?G"
    using inj by (rule group_elements_inv)
  have wfP: "\<And>r t. (r, t) \<in> ?P \<Longrightarrow> ranges_wf r"
  proof -
    fix r t assume "(r, t) \<in> ?P"
    then have "(r, t) \<in> encode_indices ` el_indices ` ?ne"
      unfolding encoded_patterns .
    then obtain e where e: "e \<in> ?ne" "(r, t) = encode_indices (el_indices e)"
      by blast
    from e(1) have "OrderedSet_size (el_indices e) \<noteq> 0" by simp
    then have "ranges_wf (fst (encode_indices (el_indices e)))" by (rule encode_indices_wf)
    moreover have "fst (encode_indices (el_indices e)) = r" using e(2)[symmetric] by simp
    ultimately show "ranges_wf r" by simp
  qed
  have wfQ: "\<forall>q \<in> set ?Q. ranges_wf (qe_ranges q)"
  proof
    fix q assume "q \<in> set ?Q"
    then obtain p where p: "p \<in> set ?G" "q = query_element (snd p)"
      by (auto simp add: split_beta)
    then have "(eg_ranges (snd p), eg_set (snd p)) \<in> ?P"
      using inv unfolding groups_inv_def by blast
    then have "ranges_wf (eg_ranges (snd p))" by (rule wfP)
    then show "ranges_wf (qe_ranges q)" using p(2) by (simp add: query_element_def)
  qed
  from toLoci_elements_ok[OF wfQ, of s] obtain els where
    els: "toLoci_elements ?Q s = Inr els"
         "\<forall>i. i \<in> set (elements_ids els) \<longleftrightarrow>
            (\<exists>r t. (i, r, t) \<in> query_entries ?Q \<and> unitMap_get s i \<noteq> None)"
         "\<forall>i x. (i, x) \<in> elements_pairs els \<longleftrightarrow>
            (\<exists>r t. (i, r, t) \<in> query_entries ?Q \<and> unitMap_get s i \<noteq> None
                \<and> x \<in> set (SortedRanges_values r) \<union> set t)"
    by blast
  let ?l' = "\<lparr> loci_structure = s, loci_elements = els \<rparr>"
  have res: "toLoci (fromLoci hashFnv32a hash2 l) s = Inr ?l'"
    using els(1) q by (simp add: toLoci_def hash_guard_def)
  have present: "\<And>e. e \<in> set ?es \<Longrightarrow> unitMap_get s (unit_id (el_unit e)) \<noteq> None"
    using over by (auto simp add: loci_over_def list_all_iff)
  have in_entries: "\<And>i r t. (i, r, t) \<in> query_entries ?Q \<longleftrightarrow>
      (\<exists>e \<in> ?ne. i = unit_id (el_unit e) \<and> (r, t) = encode_indices (el_indices e))"
    unfolding entries by auto
  have ids: "loci_unit_ids ?l' = (\<lambda>e. unit_id (el_unit e)) ` ?ne"
  proof (rule set_eqI)
    fix i
    have "i \<in> loci_unit_ids ?l' \<longleftrightarrow>
        (\<exists>r t. (i, r, t) \<in> query_entries ?Q \<and> unitMap_get s i \<noteq> None)"
      using els(2) by (simp add: loci_unit_ids_def)
    also have "\<dots> \<longleftrightarrow> (\<exists>e \<in> ?ne. i = unit_id (el_unit e))"
    proof
      assume "\<exists>r t. (i, r, t) \<in> query_entries ?Q \<and> unitMap_get s i \<noteq> None"
      then show "\<exists>e \<in> ?ne. i = unit_id (el_unit e)" unfolding in_entries by blast
    next
      assume "\<exists>e \<in> ?ne. i = unit_id (el_unit e)"
      then obtain e where e: "e \<in> ?ne" "i = unit_id (el_unit e)" by blast
      have "(i, fst (encode_indices (el_indices e)), snd (encode_indices (el_indices e)))
          \<in> query_entries ?Q"
        unfolding in_entries using e by auto
      moreover have "unitMap_get s i \<noteq> None" using present e by simp
      ultimately show "\<exists>r t. (i, r, t) \<in> query_entries ?Q \<and> unitMap_get s i \<noteq> None"
        by blast
    qed
    finally show "i \<in> loci_unit_ids ?l' \<longleftrightarrow> i \<in> (\<lambda>e. unit_id (el_unit e)) ` ?ne" by blast
  qed
  have pairs: "loci_pairs ?l' = loci_pairs l"
  proof (rule set_eqI)
    fix p :: "int \<times> nat"
    obtain i x where p: "p = (i, x)" by (cases p)
    have dec: "\<And>e. e \<in> ?ne \<Longrightarrow>
        set (SortedRanges_values (fst (encode_indices (el_indices e))))
          \<union> set (snd (encode_indices (el_indices e))) = set (OrderedSet_values (el_indices e))"
      using encode_indices_values by simp
    have "(i, x) \<in> loci_pairs ?l' \<longleftrightarrow>
        (\<exists>r t. (i, r, t) \<in> query_entries ?Q \<and> unitMap_get s i \<noteq> None
                \<and> x \<in> set (SortedRanges_values r) \<union> set t)"
      using els(3) by (simp add: loci_pairs_def)
    also have "\<dots> \<longleftrightarrow> (\<exists>e \<in> ?ne. i = unit_id (el_unit e)
        \<and> x \<in> set (SortedRanges_values (fst (encode_indices (el_indices e))))
              \<union> set (snd (encode_indices (el_indices e))))"
    proof
      assume "\<exists>r t. (i, r, t) \<in> query_entries ?Q \<and> unitMap_get s i \<noteq> None
                \<and> x \<in> set (SortedRanges_values r) \<union> set t"
      then obtain r t e where e: "e \<in> ?ne" "i = unit_id (el_unit e)"
          "(r, t) = encode_indices (el_indices e)" "x \<in> set (SortedRanges_values r) \<union> set t"
        unfolding in_entries by blast
      have "fst (encode_indices (el_indices e)) = r" "snd (encode_indices (el_indices e)) = t"
        using e(3)[symmetric] by simp_all
      then have "x \<in> set (SortedRanges_values (fst (encode_indices (el_indices e))))
              \<union> set (snd (encode_indices (el_indices e)))" using e(4) by simp
      then show "\<exists>e \<in> ?ne. i = unit_id (el_unit e)
        \<and> x \<in> set (SortedRanges_values (fst (encode_indices (el_indices e))))
              \<union> set (snd (encode_indices (el_indices e)))"
        using e(1,2) by blast
    next
      assume "\<exists>e \<in> ?ne. i = unit_id (el_unit e)
        \<and> x \<in> set (SortedRanges_values (fst (encode_indices (el_indices e))))
              \<union> set (snd (encode_indices (el_indices e)))"
      then obtain e where e: "e \<in> ?ne" "i = unit_id (el_unit e)"
        "x \<in> set (SortedRanges_values (fst (encode_indices (el_indices e))))
              \<union> set (snd (encode_indices (el_indices e)))" by blast
      have "(i, fst (encode_indices (el_indices e)), snd (encode_indices (el_indices e)))
          \<in> query_entries ?Q"
        unfolding in_entries using e(1,2) by auto
      moreover have "unitMap_get s i \<noteq> None" using present e(1,2) by simp
      ultimately show "\<exists>r t. (i, r, t) \<in> query_entries ?Q \<and> unitMap_get s i \<noteq> None
                \<and> x \<in> set (SortedRanges_values r) \<union> set t"
        using e(3) by blast
    qed
    also have "\<dots> \<longleftrightarrow> (\<exists>e \<in> ?ne. i = unit_id (el_unit e) \<and> x \<in> set (OrderedSet_values (el_indices e)))"
      using dec by blast
    also have "\<dots> \<longleftrightarrow> (\<exists>e \<in> set ?es. unit_id (el_unit e) = i \<and> x \<in> set (OrderedSet_values (el_indices e)))"
    proof
      assume "\<exists>e \<in> ?ne. i = unit_id (el_unit e) \<and> x \<in> set (OrderedSet_values (el_indices e))"
      then show "\<exists>e \<in> set ?es. unit_id (el_unit e) = i \<and> x \<in> set (OrderedSet_values (el_indices e))"
        by blast
    next
      assume "\<exists>e \<in> set ?es. unit_id (el_unit e) = i \<and> x \<in> set (OrderedSet_values (el_indices e))"
      then obtain e where e: "e \<in> set ?es" "unit_id (el_unit e) = i"
        "x \<in> set (OrderedSet_values (el_indices e))" by blast
      from e(3) have "set (OrderedSet_values (el_indices e)) \<noteq> {}" by auto
      then have "OrderedSet_size (el_indices e) \<noteq> 0" by (simp add: OrderedSet_size_0_iff)
      then have "e \<in> ?ne" using e(1) by simp
      then show "\<exists>e \<in> ?ne. i = unit_id (el_unit e) \<and> x \<in> set (OrderedSet_values (el_indices e))"
        using e(2,3) by blast
    qed
    also have "\<dots> \<longleftrightarrow> (i, x) \<in> loci_pairs l"
      by (simp add: loci_pairs_def elements_pairs_iff)
    finally show "p \<in> loci_pairs ?l' \<longleftrightarrow> p \<in> loci_pairs l" unfolding p .
  qed
  have eq: "(\<forall>e \<in> set ?es. OrderedSet_size (el_indices e) \<noteq> 0) \<longrightarrow> set_equal ?l' l"
  proof
    assume "\<forall>e \<in> set ?es. OrderedSet_size (el_indices e) \<noteq> 0"
    then have "?ne = set ?es" by blast
    then have "loci_unit_ids ?l' = loci_unit_ids l"
      unfolding ids by (simp add: loci_unit_ids_def elements_ids_def)
    then show "set_equal ?l' l" using pairs by (simp add: set_equal_def)
  qed
  from res pairs ids eq show "\<exists>l'. toLoci (fromLoci hashFnv32a hash2 l) s = Inr l'
      \<and> loci_pairs l' = loci_pairs l
      \<and> loci_unit_ids l' =
          (\<lambda>e. unit_id (el_unit e)) ` {e \<in> set (loci_elements l). OrderedSet_size (el_indices e) \<noteq> 0}
      \<and> ((\<forall>e \<in> set (loci_elements l). OrderedSet_size (el_indices e) \<noteq> 0) \<longrightarrow> set_equal l' l)"
    by blast
qed

theorem query_round_trip_witness:
  "loci_over example_structure
     (example_loci [(example_unit1, SortedArray [0, 1, 2, 3, 5]),
                    (example_unit2, SortedArray [0, 1, 2, 3, 5]),
                    (example_unit3, Interval 0 2)])
   \<and> inj_on (\<lambda>(r, t). pattern_key (\<lambda>xs. int (length xs)) (\<lambda>i j. i * 10 + j) r t)
        {([0, 3], [5]), ([0, 1], [])}
   \<and> list_all (\<lambda>e. OrderedSet_size (el_indices e) \<noteq> 0)
        (loci_elements
          (example_loci [(example_unit1, SortedArray [0, 1, 2, 3, 5]),
                         (example_unit2, SortedArray [0, 1, 2, 3, 5]),
                         (example_unit3, Interval 0 2)]))
   \<and> (\<exists>l'. toLoci
              (fromLoci (\<lambda>xs. int (length xs)) (\<lambda>i j. i * 10 + j)
                (example_loci [(example_unit1, SortedArray [0, 1, 2, 3, 5]),
                               (example_unit2, SortedArray [0, 1, 2, 3, 5]),
                               (example_unit3, Interval 0 2)]))
              example_structure = Inr l'
          \<and> set_equal l'
               (example_loci [(example_unit1, SortedArray [0, 1, 2, 3, 5]),
                              (example_unit2, SortedArray [0, 1, 2, 3, 5]),
                              (example_unit3, Interval 0 2)]))"
proof -
  let ?l = "example_loci [(example_unit1, SortedArray [0, 1, 2, 3, 5]),
                          (example_unit2, SortedArray [0, 1, 2, 3, 5]),
                          (example_unit3, Interval 0 2)]"
  let ?key = "\<lambda>(r, t). pattern_key (\<lambda>xs. int (length xs)) (\<lambda>i j. i * 10 + j) r t"
  have over: "loci_over example_structure ?l"
    by (simp add: loci_over_def example_defs elements_ids_def unitMap_get_def)
  have inj: "inj_on ?key {([0, 3], [5]), ([0, 1], [])}"
    by (simp add: pattern_key_def)
  have ne: "list_all (\<lambda>e. OrderedSet_size (el_indices e) \<noteq> 0) (loci_elements ?l)"
    by (simp add: example_loci_def)
  then have ne': "\<forall>e \<in> set (loci_elements ?l). OrderedSet_size (el_indices e) \<noteq> 0"
    by (simp add: list_all_iff)
  then have f: "{e \<in> set (loci_elements ?l). OrderedSet_size (el_indices e) \<noteq> 0}
      = set (loci_elements ?l)" by blast
  have ind: "el_indices ` set (loci_elements ?l) = {SortedArray [0, 1, 2, 3, 5], Interval 0 2}"
    by (simp add: example_loci_def)
  have e1: "encode_indices (SortedArray [0, 1, 2, 3, 5]) = ([0, 3], [5])"
    by (simp add: encode_indices_def)
  have e2: "encode_indices (Interval 0 2) = ([0, 1], [])"
    by (simp add: encode_indices_def)
  have pats: "encode_indices ` el_indices ` {e \<in> set (loci_elements ?l). OrderedSet_size (el_indices e) \<noteq> 0}
      = {([0, 3], [5]), ([0, 1], [])}"
    unfolding f ind by (simp only: image_insert image_empty e1 e2)
  from query_round_trip [of example_structure ?l "\<lambda>xs. int (length xs)" "\<lambda>i j. i * 10 + j"]
    over inj ne'
  have "\<exists>l'. toLoci (fromLoci (\<lambda>xs. int (length xs)) (\<lambda>i j. i * 10 + j) ?l) example_structure = Inr l'
          \<and> set_equal l' ?l"
    unfolding pats by blast
  then show ?thesis using over inj ne by blast
qed

text \<open>
  C3 (as stated) fails for a loci with an element without indices: \<open>fromLoci\<close> skips
  the element, the query has no elements and \<open>toLoci\<close> returns the empty loci, which
  has lost unit 1.
\<close>

theorem query_round_trip_empty_unit_counterexample:
  "loci_over example_structure (example_loci [(example_unit1, SortedArray [])])
   \<and> fromLoci (\<lambda>xs. 0) (\<lambda>i j. 0) (example_loci [(example_unit1, SortedArray [])])
       = \<lparr> query_hash = 7, query_elements = [] \<rparr>
   \<and> toLoci \<lparr> query_hash = 7, query_elements = [] \<rparr> example_structure = Inr (example_loci [])
   \<and> \<not> set_equal (example_loci []) (example_loci [(example_unit1, SortedArray [])])"
  by (simp add: loci_over_def example_defs elements_ids_def unitMap_get_def fromLoci_def root_def
      group_elements_def toLoci_def hash_guard_def set_equal_def loci_unit_ids_def)

text \<open>
  The condition on the keys cannot be dropped: groups are merged by key alone, and
  the pattern of a group is that of its first element. With hash functions that send
  every pattern to the same key, unit 3 comes back with the indices of unit 1.
\<close>

lemma round_trip_colliding_keys:
  "fromLoci (\<lambda>xs. 0) (\<lambda>i j. 0)
     (example_loci [(example_unit1, SortedArray [0]), (example_unit3, SortedArray [1])])
     = \<lparr> query_hash = 7,
         query_elements = [\<lparr> groupedUnits = [[1], [3]], qe_set = [0], qe_ranges = [] \<rparr>] \<rparr>
   \<and> toLoci
        \<lparr> query_hash = 7,
          query_elements = [\<lparr> groupedUnits = [[1], [3]], qe_set = [0], qe_ranges = [] \<rparr>] \<rparr>
        example_structure
      = Inr (example_loci [(example_unit1, SortedArray [0]), (example_unit3, SortedArray [0])])
   \<and> (3, 1) \<in> loci_pairs (example_loci [(example_unit1, SortedArray [0]), (example_unit3, SortedArray [1])])
   \<and> (3, 1) \<notin> loci_pairs (example_loci [(example_unit1, SortedArray [0]), (example_unit3, SortedArray [0])])"
  by (simp add: fromLoci_def example_defs root_def encode_indices_def group_elements_def
      group_element_def pattern_key_def add_unit_def query_element_def first_id_def
      toLoci_def hash_guard_def toLoci_indices_def unitMap_get_def
      loci_pairs_def elements_pairs_def element_pairs_def)

end
